theory Spec2Isabelle
  imports Main
begin

section \<open>JavaScript strings\<close>

text \<open>
  A JavaScript string is a sequence of UTF-16 code units. The outline labels of the
  program are Chinese words, so strings are lists of code units (natural numbers below
  65536); \<open>asc\<close> embeds an ASCII literal.
\<close>

type_synonym jsstring = "nat list"

type_synonym bytes = "nat list"

definition asc :: "string \<Rightarrow> jsstring" where
  "asc s = map of_char s"

text \<open>
  \<open>String.prototype.trim\<close> and the regular expression class \<open>\S\<close> use the same set:
  WhiteSpace and LineTerminator of ECMAScript.
\<close>

definition is_space :: "nat \<Rightarrow> bool" where
  "is_space c \<longleftrightarrow>
     c = 9 \<or> c = 10 \<or> c = 11 \<or> c = 12 \<or> c = 13 \<or> c = 32 \<or> c = 160 \<or> c = 5760 \<or>
     (8192 \<le> c \<and> c \<le> 8202) \<or> c = 8232 \<or> c = 8233 \<or> c = 8239 \<or> c = 8287 \<or>
     c = 12288 \<or> c = 65279"

definition trim :: "jsstring \<Rightarrow> jsstring" where
  "trim s = rev (dropWhile is_space (rev (dropWhile is_space s)))"

fun startsWith :: "jsstring \<Rightarrow> jsstring \<Rightarrow> bool" where
  "startsWith s [] = True"
| "startsWith [] (p # ps) = False"
| "startsWith (c # cs) (p # ps) = (c = p \<and> startsWith cs ps)"

fun str_includes :: "jsstring \<Rightarrow> jsstring \<Rightarrow> bool" where
  "str_includes [] p = (p = [])"
| "str_includes (c # cs) p = (startsWith (c # cs) p \<or> str_includes cs p)"

section \<open>Outline parser (OutlineService._parseOutline)\<close>

text \<open>
  \<open>PageData\<close> declares \<open>type\<close> as \<open>'cover' | 'content' | 'summary'\<close>. The parser
  reads the type out of an object literal by a computed key, which also finds the members
  every object inherits from \<open>Object.prototype\<close>; \<open>ProtoMember k\<close> is the value of the
  inherited member \<open>k\<close> (a function or an object, never a string).
\<close>

datatype page_type = Cover | Content | Summary | ProtoMember jsstring

record page_data =
  p_index :: nat
  p_type :: page_type
  p_content :: jsstring

text \<open>
  The separator of \<open>split(/<page>/i)\<close>: the six code units of \<open><page>\<close>, letters in
  either case. (Without the \<open>u\<close> flag a letter of the pattern matches its two ASCII
  forms only.)
\<close>

fun page_tag_at :: "jsstring \<Rightarrow> bool" where
  "page_tag_at (a # b # c # d # e # f # rest) \<longleftrightarrow>
     a = 60 \<and> (b = 112 \<or> b = 80) \<and> (c = 97 \<or> c = 65) \<and> (d = 103 \<or> d = 71) \<and>
     (e = 101 \<or> e = 69) \<and> f = 62"
| "page_tag_at _ \<longleftrightarrow> False"

definition dashes_at :: "jsstring \<Rightarrow> bool" where
  "dashes_at s = startsWith s [45, 45, 45]"

text \<open>
  \<open>String.prototype.split\<close> with a separator that cannot match the empty string: scan
  from the left, cut at each match, continue after it. \<open>m\<close> tells whether the separator
  matches at the head of the rest, \<open>k\<close> is the separator's length minus one.
\<close>

fun extend_first :: "nat \<Rightarrow> jsstring list \<Rightarrow> jsstring list" where
  "extend_first c [] = [[c]]"
| "extend_first c (seg # segs) = (c # seg) # segs"

fun split_sep :: "(jsstring \<Rightarrow> bool) \<Rightarrow> nat \<Rightarrow> jsstring \<Rightarrow> jsstring list" where
  "split_sep m k [] = [[]]"
| "split_sep m k (c # cs) =
     (if m (c # cs) then [] # split_sep m k (drop k cs)
      else extend_first c (split_sep m k cs))"

text \<open>The number of (non-overlapping) separators the same scan finds.\<close>

fun count_sep :: "(jsstring \<Rightarrow> bool) \<Rightarrow> nat \<Rightarrow> jsstring \<Rightarrow> nat" where
  "count_sep m k [] = 0"
| "count_sep m k (c # cs) =
     (if m (c # cs) then Suc (count_sep m k (drop k cs)) else count_sep m k cs)"

definition page_marker :: jsstring where
  "page_marker = [60, 112, 97, 103, 101, 62]"

definition pagesRaw :: "jsstring \<Rightarrow> jsstring list" where
  "pagesRaw outlineText =
     (if str_includes outlineText page_marker then split_sep page_tag_at 5 outlineText
      else split_sep dashes_at 2 outlineText)"

definition delimiter_count :: "jsstring \<Rightarrow> nat" where
  "delimiter_count outlineText =
     (if str_includes outlineText page_marker then count_sep page_tag_at 5 outlineText
      else count_sep dashes_at 2 outlineText)"

text \<open>
  \<open>pageText.match(/^\[(\S+)\]/)\<close>: after the opening bracket \<open>\S+\<close> takes the whole
  run of non-space code units, then gives code units back one at a time until the next one
  is a closing bracket; the group keeps at least one code unit.
\<close>

fun label_backtrack :: "jsstring \<Rightarrow> nat \<Rightarrow> jsstring option" where
  "label_backtrack run 0 = None"
| "label_backtrack run (Suc j) =
     (if Suc j < length run \<and> run ! Suc j = 93 then Some (take (Suc j) run)
      else label_backtrack run j)"

fun typeMatch :: "jsstring \<Rightarrow> jsstring option" where
  "typeMatch [] = None"
| "typeMatch (c # cs) =
     (if c = 91
      then (let run = takeWhile (\<lambda>x. \<not> is_space x) cs in label_backtrack run (length run))
      else None)"

definition label_cover :: jsstring where "label_cover = [23553, 38754]"
definition label_content :: jsstring where "label_content = [20869, 23481]"
definition label_summary :: jsstring where "label_summary = [24635, 32467]"

text \<open>
  The names \<open>Object.prototype\<close> defines (as functions, \<open>__proto__\<close> as an accessor that
  returns an object): all of them truthy, all of them found by \<open>typeMapping[typeCn]\<close>.
\<close>

definition object_prototype_keys :: "jsstring list" where
  "object_prototype_keys = map asc
     [''constructor'', ''__proto__'', ''hasOwnProperty'', ''isPrototypeOf'',
      ''propertyIsEnumerable'', ''toLocaleString'', ''toString'', ''valueOf'',
      ''__defineGetter__'', ''__defineSetter__'', ''__lookupGetter__'',
      ''__lookupSetter__'']"

definition typeMapping :: "jsstring \<Rightarrow> page_type option" where
  "typeMapping typeCn =
     (if typeCn = label_cover then Some Cover
      else if typeCn = label_content then Some Content
      else if typeCn = label_summary then Some Summary
      else if typeCn \<in> set object_prototype_keys then Some (ProtoMember typeCn)
      else None)"

definition pageType :: "jsstring \<Rightarrow> page_type" where
  "pageType pageText =
     (case typeMatch pageText of
        None \<Rightarrow> Content
      | Some typeCn \<Rightarrow> (case typeMapping typeCn of Some t \<Rightarrow> t | None \<Rightarrow> Content))"

text \<open>The body of \<open>pagesRaw.forEach((pageText, index) => ...)\<close>, from position \<open>index\<close> on.\<close>

fun forEach_page :: "nat \<Rightarrow> jsstring list \<Rightarrow> page_data list" where
  "forEach_page index [] = []"
| "forEach_page index (pageText # rest) =
     (let t = trim pageText in
      if t = [] then forEach_page (Suc index) rest
      else \<lparr>p_index = index, p_type = pageType t, p_content = t\<rparr>
             # forEach_page (Suc index) rest)"

definition parseOutline :: "jsstring \<Rightarrow> page_data list" where
  "parseOutline outlineText = forEach_page 0 (pagesRaw outlineText)"

section \<open>History store (HistoryService)\<close>

text \<open>
  The service keeps everything under one directory: \<open>index.json\<close>, one detail file
  \<open><id>.json\<close> per record, and one directory \<open><task id>\<close> of image files per task. The
  store maps record ids to detail files and task ids to directories; a directory lists its
  files in the order \<open>readdirSync\<close> returns them. A file that does not parse as JSON is
  \<open>Unparsable\<close> (\<open>getRecord\<close> and \<open>_loadIndex\<close> catch the error); for the index file,
  \<open>None\<close>. Record ids and task ids are taken to be plain names, distinct from each other
  and from \<open>index\<close>.
\<close>

record outline_data =
  o_outline :: jsstring
  o_pages :: "page_data list option"
  o_has_images :: "bool option"

text \<open>
  \<open>generated\<close> is declared \<open>string[]\<close>; an assignment past its end leaves holes, which
  \<open>JSON.stringify\<close> writes as \<open>null\<close> (\<open>None\<close>).
\<close>

record images_data =
  i_task_id :: "jsstring option"
  i_generated :: "jsstring option list"

record history_record =
  r_id :: jsstring
  r_title :: jsstring
  r_created_at :: jsstring
  r_updated_at :: jsstring
  r_outline :: outline_data
  r_images :: images_data
  r_status :: jsstring
  r_thumbnail :: "jsstring option"

record history_index_record =
  x_id :: jsstring
  x_title :: jsstring
  x_created_at :: jsstring
  x_updated_at :: jsstring
  x_status :: jsstring
  x_thumbnail :: "jsstring option"
  x_page_count :: nat
  x_task_id :: "jsstring option"


datatype detail_file = Parsed history_record | Unparsable

type_synonym directory = "(jsstring \<times> bytes) list"

record store =
  details :: "jsstring \<Rightarrow> detail_file option"
  index_file :: "history_index_record list option"
  task_dirs :: "jsstring \<Rightarrow> directory option"

text \<open>The argument of \<open>updateRecord\<close>: each field given or \<open>undefined\<close>.\<close>

record record_updates =
  u_outline :: "outline_data option"
  u_images :: "images_data option"
  u_status :: "jsstring option"
  u_thumbnail :: "jsstring option"

text \<open>Truthiness of a string, and \<open>x || null\<close> on an optional string.\<close>

definition truthy :: "jsstring \<Rightarrow> bool" where
  "truthy s \<longleftrightarrow> s \<noteq> []"

definition or_null :: "jsstring option \<Rightarrow> jsstring option" where
  "or_null x = (case x of None \<Rightarrow> None | Some s \<Rightarrow> if truthy s then Some s else None)"

text \<open>\<open>outline.pages?.length || 0\<close>\<close>

definition pages_length :: "outline_data \<Rightarrow> nat" where
  "pages_length outline = (case o_pages outline of None \<Rightarrow> 0 | Some ps \<Rightarrow> length ps)"

definition loadIndex :: "store \<Rightarrow> history_index_record list" where
  "loadIndex s = (case index_file s of None \<Rightarrow> [] | Some records \<Rightarrow> records)"

definition saveIndex :: "history_index_record list \<Rightarrow> store \<Rightarrow> store" where
  "saveIndex records s = s\<lparr>index_file := Some records\<rparr>"

definition getRecord :: "store \<Rightarrow> jsstring \<Rightarrow> history_record option" where
  "getRecord s recordId =
     (case details s recordId of
        None \<Rightarrow> None
      | Some Unparsable \<Rightarrow> None
      | Some (Parsed record) \<Rightarrow> Some record)"

text \<open>
  \<open>createRecord\<close>: \<open>recordId\<close> is the value of \<open>uuidv4()\<close> and \<open>now\<close> the value of
  \<open>new Date().toISOString()\<close>, both supplied by the environment.
\<close>

definition createRecord ::
  "jsstring \<Rightarrow> jsstring \<Rightarrow> jsstring \<Rightarrow> outline_data \<Rightarrow> jsstring option \<Rightarrow> store
   \<Rightarrow> jsstring \<times> store" where
  "createRecord recordId now topic outline taskId s =
     (let record = \<lparr>r_id = recordId, r_title = topic, r_created_at = now,
                     r_updated_at = now, r_outline = outline,
                     r_images = \<lparr>i_task_id = or_null taskId, i_generated = []\<rparr>,
                     r_status = asc ''draft'', r_thumbnail = None\<rparr>;
          s1 = s\<lparr>details := (details s)(recordId \<mapsto> Parsed record)\<rparr>;
          index = loadIndex s1;
          entry = \<lparr>x_id = recordId, x_title = topic, x_created_at = now,
                    x_updated_at = now, x_status = asc ''draft'', x_thumbnail = None,
                    x_page_count = pages_length outline, x_task_id = or_null taskId\<rparr>
      in (recordId, saveIndex (entry # index) s1))"

text \<open>
  The detail file takes every field that is not \<open>undefined\<close>; the index entry takes a
  field only when it is truthy.
\<close>

definition update_detail :: "jsstring \<Rightarrow> record_updates \<Rightarrow> history_record \<Rightarrow> history_record" where
  "update_detail now updates record =
     (let r1 = record\<lparr>r_updated_at := now\<rparr>;
          r2 = (case u_outline updates of None \<Rightarrow> r1 | Some ol \<Rightarrow> r1\<lparr>r_outline := ol\<rparr>);
          r3 = (case u_images updates of None \<Rightarrow> r2 | Some im \<Rightarrow> r2\<lparr>r_images := im\<rparr>);
          r4 = (case u_status updates of None \<Rightarrow> r3 | Some st \<Rightarrow> r3\<lparr>r_status := st\<rparr>)
      in (case u_thumbnail updates of None \<Rightarrow> r4 | Some th \<Rightarrow> r4\<lparr>r_thumbnail := Some th\<rparr>))"

definition update_entry ::
  "jsstring \<Rightarrow> record_updates \<Rightarrow> history_index_record \<Rightarrow> history_index_record" where
  "update_entry now updates indexRecord =
     (let e1 = indexRecord\<lparr>x_updated_at := now\<rparr>;
          e2 = (case u_status updates of
                  None \<Rightarrow> e1
                | Some st \<Rightarrow> if truthy st then e1\<lparr>x_status := st\<rparr> else e1);
          e3 = (case u_thumbnail updates of
                  None \<Rightarrow> e2
                | Some th \<Rightarrow> if truthy th then e2\<lparr>x_thumbnail := Some th\<rparr> else e2);
          e4 = (case u_outline updates of
                  None \<Rightarrow> e3
                | Some ol \<Rightarrow> e3\<lparr>x_page_count := pages_length ol\<rparr>)
      in (case u_images updates of
            None \<Rightarrow> e4
          | Some im \<Rightarrow>
              (case i_task_id im of
                 None \<Rightarrow> e4
               | Some t \<Rightarrow> if truthy t then e4\<lparr>x_task_id := Some t\<rparr> else e4)))"

text \<open>\<open>index.records.find(r => r.id === recordId)\<close>, then the change of the found entry.\<close>

fun patch_first ::
  "jsstring \<Rightarrow> (history_index_record \<Rightarrow> history_index_record) \<Rightarrow> history_index_record list
   \<Rightarrow> history_index_record list" where
  "patch_first recordId f [] = []"
| "patch_first recordId f (r # rs) =
     (if x_id r = recordId then f r # rs else r # patch_first recordId f rs)"

definition updateRecord :: "jsstring \<Rightarrow> jsstring \<Rightarrow> record_updates \<Rightarrow> store \<Rightarrow> bool \<times> store" where
  "updateRecord now recordId updates s =
     (case getRecord s recordId of
        None \<Rightarrow> (False, s)
      | Some record \<Rightarrow>
          (let s1 = s\<lparr>details :=
                       (details s)(recordId \<mapsto> Parsed (update_detail now updates record))\<rparr>;
               index = loadIndex s1
           in (True, saveIndex (patch_first recordId (update_entry now updates) index) s1)))"





subsection \<open>Directory scan\<close>

definition endsWith :: "jsstring \<Rightarrow> jsstring \<Rightarrow> bool" where
  "endsWith s suffix = startsWith (rev s) (rev suffix)"

definition is_image_file :: "jsstring \<Rightarrow> bool" where
  "is_image_file filename \<longleftrightarrow>
     \<not> startsWith filename (asc ''thumb_'') \<and>
     (endsWith filename (asc ''.png'') \<or> endsWith filename (asc ''.jpg'') \<or>
      endsWith filename (asc ''.jpeg''))"

text \<open>
  \<open>imageFiles.sort((a, b) => getIndex(a) - getIndex(b))\<close> with
  \<open>getIndex(name) = parseInt(name.split('.')[0])\<close>. \<open>parseInt\<close> is the built-in, a
  parameter here (\<open>None\<close> is \<open>NaN\<close>; it never throws, so the 999 of the source is never
  used). A comparison that involves \<open>NaN\<close> counts as 0. The sort is stable; where all
  stems are numbers this fixes the result, otherwise the order is up to the engine and the
  model takes that of a stable insertion sort. The array keeps its length in any case.
\<close>

definition getIndex_compare :: "(jsstring \<Rightarrow> int option) \<Rightarrow> jsstring \<Rightarrow> jsstring \<Rightarrow> int" where
  "getIndex_compare parseInt a b =
     (case (parseInt (takeWhile (\<lambda>c. c \<noteq> 46) a), parseInt (takeWhile (\<lambda>c. c \<noteq> 46) b)) of
        (Some x, Some y) \<Rightarrow> x - y
      | _ \<Rightarrow> 0)"

fun insert_sorted :: "(jsstring \<Rightarrow> jsstring \<Rightarrow> int) \<Rightarrow> jsstring \<Rightarrow> jsstring list \<Rightarrow> jsstring list" where
  "insert_sorted cmp a [] = [a]"
| "insert_sorted cmp a (b # bs) =
     (if cmp a b \<le> 0 then a # b # bs else b # insert_sorted cmp a bs)"

definition sort_files :: "(jsstring \<Rightarrow> int option) \<Rightarrow> jsstring list \<Rightarrow> jsstring list" where
  "sort_files parseInt files = foldr (insert_sorted (getIndex_compare parseInt)) files []"

text \<open>The first index entry whose detail record carries the task id.\<close>

fun find_task_record :: "store \<Rightarrow> jsstring \<Rightarrow> history_index_record list \<Rightarrow> jsstring option" where
  "find_task_record s taskId [] = None"
| "find_task_record s taskId (rec # rest) =
     (case getRecord s (x_id rec) of
        None \<Rightarrow> find_task_record s taskId rest
      | Some recordDetail \<Rightarrow>
          if i_task_id (r_images recordDetail) = Some taskId then Some (x_id rec)
          else find_task_record s taskId rest)"

definition scan_status :: "nat \<Rightarrow> nat \<Rightarrow> jsstring" where
  "scan_status actualCount expectedCount =
     (if actualCount = 0 then asc ''draft''
      else if actualCount \<ge> expectedCount then asc ''completed''
      else asc ''partial'')"

datatype scan_result =
    ScanFailed jsstring
  | ScanSynced jsstring jsstring "jsstring list" jsstring
  | ScanNoRecord jsstring "jsstring list"

definition task_dir_missing :: jsstring where
  "task_dir_missing = [20219, 21153, 30446, 24405, 19981, 23384, 22312, 58, 32]"

definition scanAndSyncTaskImages ::
  "(jsstring \<Rightarrow> int option) \<Rightarrow> jsstring \<Rightarrow> jsstring \<Rightarrow> store \<Rightarrow> scan_result \<times> store" where
  "scanAndSyncTaskImages parseInt now taskId s =
     (case task_dirs s taskId of
        None \<Rightarrow> (ScanFailed (task_dir_missing @ taskId), s)
      | Some dir \<Rightarrow>
          (let imageFiles = sort_files parseInt (filter is_image_file (map fst dir));
               index = loadIndex s
           in (case find_task_record s taskId index of
                 None \<Rightarrow> (ScanNoRecord taskId imageFiles, s)
               | Some recordId \<Rightarrow>
                   (case getRecord s recordId of
                      None \<Rightarrow> (ScanNoRecord taskId imageFiles, s)
                    | Some record \<Rightarrow>
                        (let expectedCount = pages_length (r_outline record);
                             actualCount = length imageFiles;
                             status = scan_status actualCount expectedCount;
                             updates = \<lparr>u_outline = None,
                                        u_images = Some \<lparr>i_task_id = Some taskId,
                                                          i_generated = map Some imageFiles\<rparr>,
                                        u_status = Some status,
                                        u_thumbnail = (case imageFiles of
                                                         [] \<Rightarrow> None
                                                       | f # _ \<Rightarrow> Some f)\<rparr>
                         in (ScanSynced recordId taskId imageFiles status,
                             snd (updateRecord now recordId updates s)))))))"

subsection \<open>Consistency of the index with the detail files\<close>

definition entry_matches :: "history_index_record \<Rightarrow> history_record \<Rightarrow> bool" where
  "entry_matches e r \<longleftrightarrow>
     x_status e = r_status r \<and> x_thumbnail e = r_thumbnail r \<and>
     x_updated_at e = r_updated_at r \<and> x_page_count e = pages_length (r_outline r) \<and>
     x_task_id e = i_task_id (r_images r)"

definition index_consistent :: "store \<Rightarrow> bool" where
  "index_consistent s =
     list_all (\<lambda>e. case getRecord s (x_id e) of None \<Rightarrow> True | Some r \<Rightarrow> entry_matches e r)
       (loadIndex s)"

definition empty_store :: store where
  "empty_store = \<lparr>details = (\<lambda>_. None), index_file = Some [], task_dirs = (\<lambda>_. None)\<rparr>"

section \<open>Streaming chat completion (generateViaChatApi)\<close>

text \<open>
  \<open>OpenAICompatibleGenerator.generateViaChatApi\<close> and
  \<open>ImageApiGenerator.generateViaChatApi\<close> wrap the response stream in a promise with the
  same three listeners, word for word; one model serves both. The stream is the list of
  events it emits. The promise settles once: later calls of \<open>resolve\<close> or \<open>reject\<close> do
  nothing.
\<close>

datatype stream_event = Data jsstring | End | Failure jsstring

datatype stream_error =
    ChunkLimitExceeded nat
  | StopWithoutContent
  | EndedWithoutStop
  | StreamFailed jsstring

text \<open>
  \<open>Extracted content\<close>: the promise is resolved or rejected by
  \<open>extractAndDownloadImage(content)\<close>.
\<close>

datatype settlement = Extracted jsstring | Rejected stream_error

text \<open>
  What the handler finds in one line of the stream after \<open>JSON.parse\<close>: nothing of interest
  (not JSON, no choices, no \<open>finish_reason: 'stop'\<close>, or an exception, which the \<open>catch\<close>
  swallows), the terminal marker with a truthy \<open>delta.content\<close>, or the terminal marker
  without one. \<open>JSON.parse\<close> and the field reads are the parameter \<open>parse\<close>.
\<close>

datatype line_kind = Ignored | StopContent jsstring | StopNoContent

record stream_state =
  buffer :: jsstring
  chunkCount :: nat
  listening :: bool
  settled :: "settlement option"

definition MAX_CHUNKS :: nat where
  "MAX_CHUNKS = 200"

definition initial_stream :: stream_state where
  "initial_stream = \<lparr>buffer = [], chunkCount = 0, listening = True, settled = None\<rparr>"

definition settle :: "settlement \<Rightarrow> stream_state \<Rightarrow> stream_state" where
  "settle r st = (case settled st of None \<Rightarrow> st\<lparr>settled := Some r\<rparr> | Some _ \<Rightarrow> st)"

definition removeAllListeners :: "stream_state \<Rightarrow> stream_state" where
  "removeAllListeners st = st\<lparr>listening := False\<rparr>"

definition newline_at :: "jsstring \<Rightarrow> bool" where
  "newline_at s = startsWith s [10]"

definition data_prefix :: jsstring where
  "data_prefix = asc ''data: ''"

text \<open>The loop over the complete lines of the buffer; a \<open>return\<close> drops the lines left.\<close>

fun process_lines :: "(jsstring \<Rightarrow> line_kind) \<Rightarrow> jsstring list \<Rightarrow> stream_state \<Rightarrow> stream_state" where
  "process_lines parse [] st = st"
| "process_lines parse (line # rest) st =
     (let trimmedLine = trim line in
      if trimmedLine = [] \<or> trimmedLine = asc ''data: [DONE]'' then process_lines parse rest st
      else
        (let jsonStr = (if startsWith trimmedLine data_prefix then drop 6 trimmedLine
                        else trimmedLine)
         in (case parse jsonStr of
               Ignored \<Rightarrow> process_lines parse rest st
             | StopContent content \<Rightarrow> settle (Extracted content) (removeAllListeners st)
             | StopNoContent \<Rightarrow> settle (Rejected StopWithoutContent) st)))"

definition on_data :: "(jsstring \<Rightarrow> line_kind) \<Rightarrow> jsstring \<Rightarrow> stream_state \<Rightarrow> stream_state" where
  "on_data parse chunk st =
     (let st1 = st\<lparr>chunkCount := chunkCount st + 1\<rparr> in
      if chunkCount st1 > MAX_CHUNKS
      then settle (Rejected (ChunkLimitExceeded MAX_CHUNKS)) (removeAllListeners st1)
      else
        (let lines = split_sep newline_at 0 (buffer st1 @ chunk);
             st2 = st1\<lparr>buffer := last lines\<rparr>
         in process_lines parse (butlast lines) st2))"

definition on_end :: "stream_state \<Rightarrow> stream_state" where
  "on_end st = settle (Rejected EndedWithoutStop) st"

definition on_error :: "jsstring \<Rightarrow> stream_state \<Rightarrow> stream_state" where
  "on_error e st = settle (Rejected (StreamFailed e)) st"

text \<open>An event reaches its handler only while the listeners are attached.\<close>

definition deliver :: "(jsstring \<Rightarrow> line_kind) \<Rightarrow> stream_event \<Rightarrow> stream_state \<Rightarrow> stream_state" where
  "deliver parse ev st =
     (if \<not> listening st then st
      else (case ev of
              Data chunk \<Rightarrow> on_data parse chunk st
            | End \<Rightarrow> on_end st
            | Failure e \<Rightarrow> on_error e st))"

fun run_stream :: "(jsstring \<Rightarrow> line_kind) \<Rightarrow> stream_event list \<Rightarrow> stream_state \<Rightarrow> stream_state" where
  "run_stream parse [] st = st"
| "run_stream parse (ev # evs) st = run_stream parse evs (deliver parse ev st)"

definition chat_stream_result :: "(jsstring \<Rightarrow> line_kind) \<Rightarrow> stream_event list \<Rightarrow> settlement option" where
  "chat_stream_result parse evs = settled (run_stream parse evs initial_stream)"

section \<open>Image generation (ImageService)\<close>

subsection \<open>Events, task state, environment\<close>

datatype event_kind = EvProgress | EvComplete | EvError | EvFinish | EvRetryStart | EvRetryFinish

text \<open>\<open>ImageProgressEvent\<close>: the event name and the optional fields of \<open>data\<close>.\<close>

record event =
  e_event :: event_kind
  e_index :: "nat option"
  e_status :: "jsstring option"
  e_message :: "jsstring option"
  e_image_url :: "jsstring option"
  e_current :: "nat option"
  e_total :: "nat option"
  e_phase :: "jsstring option"
  e_success :: "bool option"
  e_task_id :: "jsstring option"
  e_images :: "jsstring list option"
  e_completed :: "nat option"
  e_failed :: "nat option"
  e_failed_indices :: "nat list option"
  e_retryable :: "bool option"
  e_error :: "jsstring option"

definition event_of :: "event_kind \<Rightarrow> event" where
  "event_of k = \<lparr>e_event = k, e_index = None, e_status = None, e_message = None,
           e_image_url = None, e_current = None, e_total = None, e_phase = None,
           e_success = None, e_task_id = None, e_images = None, e_completed = None,
           e_failed = None, e_failed_indices = None, e_retryable = None, e_error = None\<rparr>"

record task_state =
  ts_pages :: "page_data list"
  ts_generated :: "nat \<Rightarrow> jsstring option"
  ts_failed :: "nat \<Rightarrow> jsstring option"
  ts_cover_image :: "bytes option"
  ts_full_outline :: jsstring
  ts_user_images :: "bytes list option"
  ts_user_topic :: jsstring

text \<open>
  The argument of \<open>this.generator.generateImage\<close>, by the three shapes
  \<open>_generateSingleImage\<close> builds: the prompt and what the call carries of reference
  images. (Aspect ratio, size, temperature, model and quality are read from the
  configuration and do not depend on the call.)
\<close>

datatype gen_request =
    GoogleGenaiRequest jsstring "bytes option"
  | ImageApiRequest jsstring "bytes list option"
  | OpenAIRequest jsstring

text \<open>The tuple \<open>[index, success, filename, error]\<close> of \<open>_generateSingleImage\<close>.\<close>

record gen_result =
  g_index :: nat
  g_success :: bool
  g_filename :: "jsstring option"
  g_error :: "jsstring option"

text \<open>
  What lies outside the program. \<open>generator n request\<close> is the outcome of the n-th call of
  \<open>generateImage\<close> the service makes: the image, or the message of the error thrown.
  \<open>clock n\<close> is the n-th reading of the time. \<open>render_prompt\<close> fills the prompt template
  for a page, the full outline and the user's topic.
\<close>

record env =
  provider_type :: "jsstring option"
  high_concurrency :: bool
  generator :: "nat \<Rightarrow> gen_request \<Rightarrow> jsstring + bytes"
  compressImage :: "bytes \<Rightarrow> nat \<Rightarrow> bytes"
  render_prompt :: "page_data \<Rightarrow> jsstring \<Rightarrow> jsstring \<Rightarrow> jsstring"
  clock :: "nat \<Rightarrow> jsstring"
  new_task_id :: jsstring

text \<open>
  The state of the process: the history directory, the fields \<open>taskStates\<close> and
  \<open>currentTaskDir\<close> of the service. Two logs record what the service did, for the
  statements below: every request handed to the generator, and every page handed to
  \<open>_generateSingleImage\<close> with the result returned.
\<close>

record world =
  history :: store
  taskStates :: "jsstring \<Rightarrow> task_state option"
  currentTaskDir :: "jsstring option"
  ticks :: nat
  generator_calls :: "gen_request list"
  page_results :: "(page_data \<times> gen_result) list"

definition AUTO_RETRY_COUNT :: nat where
  "AUTO_RETRY_COUNT = 3"

fun show_nat :: "nat \<Rightarrow> jsstring" where
  "show_nat n = (if n < 10 then [48 + n] else show_nat (n div 10) @ [48 + n mod 10])"

declare show_nat.simps [simp del]

definition unknown_error :: jsstring where
  "unknown_error = [26410, 30693, 38169, 35823]"

definition retries_exceeded :: jsstring where
  "retries_exceeded = [36229, 36807, 26368, 22823, 37325, 35797, 27425, 25968]"

definition task_dir_unset :: jsstring where
  "task_dir_unset = [20219, 21153, 30446, 24405, 26410, 35774, 32622]"

definition ENOENT :: jsstring where
  "ENOENT = asc ''ENOENT: no such file or directory''"

text \<open>\<open>error || '...'\<close> on an optional string.\<close>

definition or_unknown :: "jsstring option \<Rightarrow> jsstring" where
  "or_unknown e = (case e of None \<Rightarrow> unknown_error
                   | Some m \<Rightarrow> if truthy m then m else unknown_error)"

subsection \<open>Files of a task directory\<close>

fun write_file :: "jsstring \<Rightarrow> bytes \<Rightarrow> directory \<Rightarrow> directory" where
  "write_file name content [] = [(name, content)]"
| "write_file name content ((n, c) # rest) =
     (if n = name then (n, content) # rest else (n, c) # write_file name content rest)"

definition read_file :: "store \<Rightarrow> jsstring \<Rightarrow> jsstring \<Rightarrow> bytes option" where
  "read_file s taskDir name =
     (case task_dirs s taskDir of None \<Rightarrow> None | Some dir \<Rightarrow> map_of dir name)"

text \<open>\<open>if (!fs.existsSync(dir)) fs.mkdirSync(dir, {recursive: true})\<close>\<close>

definition ensure_dir :: "jsstring \<Rightarrow> store \<Rightarrow> store" where
  "ensure_dir taskDir s =
     (case task_dirs s taskDir of
        None \<Rightarrow> s\<lparr>task_dirs := (task_dirs s)(taskDir \<mapsto> [])\<rparr>
      | Some _ \<Rightarrow> s)"

text \<open>
  \<open>_saveImage(imageData, filename, this.currentTaskDir)\<close>: the image and its thumbnail
  (compressed to 50 KB). It throws when no directory is set or the directory is missing.
\<close>

definition saveImage :: "env \<Rightarrow> bytes \<Rightarrow> jsstring \<Rightarrow> world \<Rightarrow> jsstring + world" where
  "saveImage env imageData filename w =
     (case currentTaskDir w of
        None \<Rightarrow> Inl task_dir_unset
      | Some taskDir \<Rightarrow>
          (case task_dirs (history w) taskDir of
             None \<Rightarrow> Inl ENOENT
           | Some dir \<Rightarrow>
               (let dir1 = write_file filename imageData dir;
                    thumbnailData = compressImage env imageData 50;
                    dir2 = write_file (asc ''thumb_'' @ filename) thumbnailData dir1
                in Inr (w\<lparr>history := (history w)\<lparr>task_dirs :=
                           (task_dirs (history w))(taskDir \<mapsto> dir2)\<rparr>\<rparr>))))"

subsection \<open>One page: \<open>_generateSingleImage\<close>\<close>

text \<open>
  The request by provider type. For \<open>image_api\<close> the reference goes last into
  \<open>referenceImages\<close>, after the user's images; any type other than \<open>google_genai\<close> and
  \<open>image_api\<close> gets no reference image.
\<close>

definition generator_kwargs ::
  "env \<Rightarrow> jsstring \<Rightarrow> bytes option \<Rightarrow> bytes list option \<Rightarrow> gen_request" where
  "generator_kwargs env prompt referenceImage userImages =
     (if provider_type env = Some (asc ''google_genai'')
      then GoogleGenaiRequest prompt referenceImage
      else if provider_type env = Some (asc ''image_api'')
      then (let referenceImages =
                  (case userImages of None \<Rightarrow> [] | Some imgs \<Rightarrow> imgs) @
                  (case referenceImage of None \<Rightarrow> [] | Some img \<Rightarrow> [img])
            in ImageApiRequest prompt
                 (if referenceImages \<noteq> [] then Some referenceImages else None))
      else OpenAIRequest prompt)"

text \<open>\<open>error.message || String(error)\<close> for an \<open>Error\<close> with the given message.\<close>

definition error_text :: "jsstring \<Rightarrow> jsstring" where
  "error_text message = (if truthy message then message else asc ''Error'')"

definition page_filename :: "nat \<Rightarrow> jsstring" where
  "page_filename index = show_nat index @ asc ''.png''"

text \<open>
  The loop \<open>for (attempt = 0; attempt < maxRetries; attempt++)\<close>, over the attempts left.
  The waiting between attempts takes time and changes nothing else.
\<close>

fun attempt_loop ::
  "env \<Rightarrow> page_data \<Rightarrow> gen_request \<Rightarrow> nat list \<Rightarrow> world \<Rightarrow> gen_result \<times> world" where
  "attempt_loop env page request [] w =
     (\<lparr>g_index = p_index page, g_success = False, g_filename = None,
       g_error = Some retries_exceeded\<rparr>, w)"
| "attempt_loop env page request (attempt # rest) w =
     (let answer = generator env (length (generator_calls w)) request;
          w1 = w\<lparr>generator_calls := generator_calls w @ [request]\<rparr>;
          saved = (case answer of
                     Inl message \<Rightarrow> Inl message
                   | Inr imageData \<Rightarrow> saveImage env imageData (page_filename (p_index page)) w1)
      in (case saved of
            Inr w2 \<Rightarrow>
              (\<lparr>g_index = p_index page, g_success = True,
                g_filename = Some (page_filename (p_index page)), g_error = None\<rparr>, w2)
          | Inl message \<Rightarrow>
              if attempt < AUTO_RETRY_COUNT - 1 then attempt_loop env page request rest w1
              else (\<lparr>g_index = p_index page, g_success = False, g_filename = None,
                     g_error = Some (error_text message)\<rparr>, w1)))"

definition generateSingleImage ::
  "env \<Rightarrow> page_data \<Rightarrow> bytes option \<Rightarrow> jsstring \<Rightarrow> bytes list option \<Rightarrow> jsstring \<Rightarrow> world
   \<Rightarrow> gen_result \<times> world" where
  "generateSingleImage env page referenceImage fullOutline userImages userTopic w =
     (let prompt = render_prompt env page fullOutline
                     (if truthy userTopic then userTopic else [26410, 25552, 20379]);
          request = generator_kwargs env prompt referenceImage userImages;
          (result, w1) = attempt_loop env page request [0..<AUTO_RETRY_COUNT] w
      in (result, w1\<lparr>page_results := page_results w1 @ [(page, result)]\<rparr>))"

text \<open>\<open>success && filename\<close>: the name of the file when the page succeeded.\<close>

definition succeeded :: "gen_result \<Rightarrow> jsstring option" where
  "succeeded r =
     (case g_filename r of
        None \<Rightarrow> None
      | Some filename \<Rightarrow> if g_success r \<and> truthy filename then Some filename else None)"

subsection \<open>A task: \<open>generateImages\<close>\<close>

text \<open>
  What stays fixed during a task. \<open>c_recordId\<close> is set when \<open>recordId\<close> is truthy, which
  is when the history service is used.
\<close>

record task_ctx =
  c_taskId :: jsstring
  c_fullOutline :: jsstring
  c_userImages :: "bytes list option"
  c_userTopic :: jsstring
  c_recordId :: "jsstring option"
  c_total :: nat

text \<open>The local variables of the generator and the events yielded so far.\<close>

record gen_state =
  st_events :: "event list"
  generatedImages :: "jsstring list"
  failedPages :: "page_data list"
  coverImageData :: "bytes option"
  st_world :: world

definition yield :: "event \<Rightarrow> gen_state \<Rightarrow> gen_state" where
  "yield e st = st\<lparr>st_events := st_events st @ [e]\<rparr>"

text \<open>
  \<open>historyService.updateRecord\<close> as the service calls it, inside \<open>try\<close>, the result
  dropped; the time is the next reading of the clock.
\<close>

definition updateHistoryRecord :: "env \<Rightarrow> jsstring \<Rightarrow> record_updates \<Rightarrow> world \<Rightarrow> world" where
  "updateHistoryRecord env recordId updates w =
     w\<lparr>history := snd (updateRecord (clock env (ticks w)) recordId updates (history w)),
       ticks := Suc (ticks w)\<rparr>"

text \<open>
  \<open>this.taskStates.get(taskId)!\<close> followed by an assignment. The entry is set when the
  task starts and nothing removes it (\<open>cleanupTask\<close> has no caller).
\<close>

definition update_task_state :: "jsstring \<Rightarrow> (task_state \<Rightarrow> task_state) \<Rightarrow> world \<Rightarrow> world" where
  "update_task_state taskId f w =
     (case taskStates w taskId of
        None \<Rightarrow> w
      | Some ts \<Rightarrow> w\<lparr>taskStates := (taskStates w)(taskId \<mapsto> f ts)\<rparr>)"

definition image_url :: "jsstring \<Rightarrow> jsstring \<Rightarrow> jsstring" where
  "image_url taskId filename = asc ''/api/images/'' @ taskId @ asc ''/'' @ filename"

text \<open>\<open>newGenerated[index] = filename\<close>: an assignment past the end leaves holes.\<close>

definition array_set :: "'a option list \<Rightarrow> nat \<Rightarrow> 'a \<Rightarrow> 'a option list" where
  "array_set xs i v =
     (if i < length xs then xs[i := Some v]
      else xs @ replicate (i - length xs) None @ [Some v])"

text \<open>
  The partition loop: the last page typed \<open>cover\<close> becomes the cover, the pages of any
  other type are collected in order.
\<close>

fun partition_loop ::
  "page_data list \<Rightarrow> page_data option \<Rightarrow> page_data list \<Rightarrow> page_data option \<times> page_data list" where
  "partition_loop [] coverPage otherPages = (coverPage, otherPages)"
| "partition_loop (page # rest) coverPage otherPages =
     (if p_type page = Cover then partition_loop rest (Some page) otherPages
      else partition_loop rest coverPage (otherPages @ [page]))"

definition partition_pages :: "page_data list \<Rightarrow> page_data option \<times> page_data list" where
  "partition_pages pages =
     (case partition_loop pages None [] of
        (Some coverPage, otherPages) \<Rightarrow> (Some coverPage, otherPages)
      | (None, otherPages) \<Rightarrow>
          (case pages of
             [] \<Rightarrow> (None, otherPages)
           | first # _ \<Rightarrow> (Some first, drop 1 otherPages)))"

subsubsection \<open>Cover\<close>

definition cover_progress :: "task_ctx \<Rightarrow> page_data \<Rightarrow> event" where
  "cover_progress c coverPage =
     (event_of EvProgress)
       \<lparr>e_index := Some (p_index coverPage), e_status := Some (asc ''generating''),
        e_message := Some [27491, 22312, 29983, 25104, 23553, 38754, 46, 46, 46],
        e_current := Some 1, e_total := Some (c_total c), e_phase := Some (asc ''cover'')\<rparr>"

definition complete_event :: "task_ctx \<Rightarrow> nat \<Rightarrow> jsstring \<Rightarrow> jsstring \<Rightarrow> event" where
  "complete_event c index filename phase =
     (event_of EvComplete)
       \<lparr>e_index := Some index, e_status := Some (asc ''done''),
        e_image_url := Some (image_url (c_taskId c) filename), e_phase := Some phase\<rparr>"

definition error_event :: "nat \<Rightarrow> jsstring option \<Rightarrow> jsstring \<Rightarrow> event" where
  "error_event index error phase =
     (event_of EvError)
       \<lparr>e_index := Some index, e_status := Some (asc ''error''),
        e_message := Some (or_unknown error), e_retryable := Some True,
        e_phase := Some phase\<rparr>"

text \<open>
  After a successful cover the file is read back and compressed to 200 KB as the
  reference. (The file was written by \<open>_saveImage\<close> a moment before; were it missing,
  \<open>readFileSync\<close> would throw.)
\<close>

definition cover_record_update :: "env \<Rightarrow> task_ctx \<Rightarrow> nat \<Rightarrow> jsstring \<Rightarrow> world \<Rightarrow> world" where
  "cover_record_update env c index filename w =
     (case c_recordId c of
        None \<Rightarrow> w
      | Some recordId \<Rightarrow>
          (let currentImages =
                 (case getRecord (history w) recordId of
                    None \<Rightarrow> \<lparr>i_task_id = Some (c_taskId c), i_generated = []\<rparr>
                  | Some record \<Rightarrow> r_images record);
               newGenerated = array_set (i_generated currentImages) index filename
           in updateHistoryRecord env recordId
                \<lparr>u_outline = None,
                 u_images = Some (currentImages\<lparr>i_task_id := Some (c_taskId c),
                                                i_generated := newGenerated\<rparr>),
                 u_status = None, u_thumbnail = Some filename\<rparr> w))"

definition cover_phase :: "env \<Rightarrow> task_ctx \<Rightarrow> page_data \<Rightarrow> gen_state \<Rightarrow> gen_state" where
  "cover_phase env c coverPage st =
     (let st1 = yield (cover_progress c coverPage) st;
          (r, w1) = generateSingleImage env coverPage None (c_fullOutline c) (c_userImages c)
                      (c_userTopic c) (st_world st1)
      in (case succeeded r of
            Some filename \<Rightarrow>
              (let w2 = update_task_state (c_taskId c)
                          (\<lambda>ts. ts\<lparr>ts_generated := (ts_generated ts)(g_index r \<mapsto> filename)\<rparr>) w1;
                   cover = map_option (\<lambda>data. compressImage env data 200)
                             (case currentTaskDir w2 of
                                None \<Rightarrow> None
                              | Some dir \<Rightarrow> read_file (history w2) dir filename);
                   w3 = update_task_state (c_taskId c) (\<lambda>ts. ts\<lparr>ts_cover_image := cover\<rparr>) w2;
                   w4 = cover_record_update env c (g_index r) filename w3
               in yield (complete_event c (g_index r) filename (asc ''cover''))
                    (st1\<lparr>generatedImages := generatedImages st1 @ [filename],
                         coverImageData := cover, st_world := w4\<rparr>))
          | None \<Rightarrow>
              (let w2 = update_task_state (c_taskId c)
                          (\<lambda>ts. ts\<lparr>ts_failed := (ts_failed ts)(g_index r \<mapsto> or_unknown (g_error r))\<rparr>)
                          w1
               in yield (error_event (p_index coverPage) (g_error r) (asc ''cover''))
                    (st1\<lparr>failedPages := failedPages st1 @ [coverPage], st_world := w2\<rparr>))))"

subsubsection \<open>Content pages\<close>

definition batch_start :: "task_ctx \<Rightarrow> jsstring \<Rightarrow> nat \<Rightarrow> gen_state \<Rightarrow> event" where
  "batch_start c mode n st =
     (event_of EvProgress)
       \<lparr>e_status := Some (asc ''batch_start''),
        e_message := Some ([24320, 22987] @ mode @ [29983, 25104, 32] @ show_nat n
                           @ [32, 39029, 20869, 23481, 46, 46, 46]),
        e_current := Some (length (generatedImages st)), e_total := Some (c_total c),
        e_phase := Some (asc ''content'')\<rparr>"

definition content_progress :: "task_ctx \<Rightarrow> page_data \<Rightarrow> gen_state \<Rightarrow> event" where
  "content_progress c page st =
     (event_of EvProgress)
       \<lparr>e_index := Some (p_index page), e_status := Some (asc ''generating''),
        e_current := Some (length (generatedImages st) + 1), e_total := Some (c_total c),
        e_phase := Some (asc ''content'')\<rparr>"

text \<open>
  What follows the result of a content page; the source has this text twice, in the
  sequential loop and in the loop over the settled promises.
\<close>

definition content_result :: "env \<Rightarrow> task_ctx \<Rightarrow> page_data \<Rightarrow> gen_result \<Rightarrow> gen_state \<Rightarrow> gen_state" where
  "content_result env c page r st =
     (case succeeded r of
        Some filename \<Rightarrow>
          (let generated = generatedImages st @ [filename];
               w1 = update_task_state (c_taskId c)
                      (\<lambda>ts. ts\<lparr>ts_generated := (ts_generated ts)(g_index r \<mapsto> filename)\<rparr>)
                      (st_world st);
               w2 = (case c_recordId c of
                       None \<Rightarrow> w1
                     | Some recordId \<Rightarrow>
                         updateHistoryRecord env recordId
                           \<lparr>u_outline = None,
                            u_images = Some \<lparr>i_task_id = Some (c_taskId c),
                                              i_generated = map Some generated\<rparr>,
                            u_status = None, u_thumbnail = None\<rparr> w1)
           in yield (complete_event c (g_index r) filename (asc ''content''))
                (st\<lparr>generatedImages := generated, st_world := w2\<rparr>))
      | None \<Rightarrow>
          (let w1 = update_task_state (c_taskId c)
                      (\<lambda>ts. ts\<lparr>ts_failed := (ts_failed ts)(g_index r \<mapsto> or_unknown (g_error r))\<rparr>)
                      (st_world st)
           in yield (error_event (g_index r) (g_error r) (asc ''content''))
                (st\<lparr>failedPages := failedPages st @ [page], st_world := w1\<rparr>)))"

definition generate_content_page :: "env \<Rightarrow> task_ctx \<Rightarrow> bytes option \<Rightarrow> page_data \<Rightarrow> world \<Rightarrow> gen_result \<times> world" where
  "generate_content_page env c cover page w =
     generateSingleImage env page cover (c_fullOutline c) (c_userImages c) (c_userTopic c) w"

text \<open>Sequential mode: progress, generation and result page by page.\<close>

fun content_sequential :: "env \<Rightarrow> task_ctx \<Rightarrow> page_data list \<Rightarrow> gen_state \<Rightarrow> gen_state" where
  "content_sequential env c [] st = st"
| "content_sequential env c (page # rest) st =
     (let st1 = yield (content_progress c page st) st;
          (r, w1) = generate_content_page env c (coverImageData st1) page (st_world st1)
      in content_sequential env c rest (content_result env c page r (st1\<lparr>st_world := w1\<rparr>)))"

text \<open>
  High-concurrency mode: a progress event per page, then all pages are started at once and
  awaited with \<open>Promise.allSettled\<close>, then the results are handled in page order. The
  calls are started in page order, and the model runs them in that order.
  \<open>_generateSingleImage\<close> catches what its attempts throw and returns a tuple, so every
  promise is fulfilled and the branch for a rejected one is never taken.
\<close>

fun yield_progress :: "task_ctx \<Rightarrow> page_data list \<Rightarrow> gen_state \<Rightarrow> gen_state" where
  "yield_progress c [] st = st"
| "yield_progress c (page # rest) st = yield_progress c rest (yield (content_progress c page st) st)"

fun run_all :: "env \<Rightarrow> task_ctx \<Rightarrow> bytes option \<Rightarrow> page_data list \<Rightarrow> world \<Rightarrow> gen_result list \<times> world" where
  "run_all env c cover [] w = ([], w)"
| "run_all env c cover (page # rest) w =
     (let (r, w1) = generate_content_page env c cover page w;
          (rs, w2) = run_all env c cover rest w1
      in (r # rs, w2))"

fun handle_results :: "env \<Rightarrow> task_ctx \<Rightarrow> (page_data \<times> gen_result) list \<Rightarrow> gen_state \<Rightarrow> gen_state" where
  "handle_results env c [] st = st"
| "handle_results env c ((page, r) # rest) st =
     handle_results env c rest (content_result env c page r st)"

definition content_concurrent :: "env \<Rightarrow> task_ctx \<Rightarrow> page_data list \<Rightarrow> gen_state \<Rightarrow> gen_state" where
  "content_concurrent env c otherPages st =
     (let st1 = yield_progress c otherPages st;
          (results, w1) = run_all env c (coverImageData st1) otherPages (st_world st1)
      in handle_results env c (zip otherPages results) (st1\<lparr>st_world := w1\<rparr>))"

definition content_phase :: "env \<Rightarrow> task_ctx \<Rightarrow> page_data list \<Rightarrow> gen_state \<Rightarrow> gen_state" where
  "content_phase env c otherPages st =
     (if otherPages = [] then st
      else if high_concurrency env
      then content_concurrent env c otherPages
             (yield (batch_start c [24182, 21457] (length otherPages) st) st)
      else content_sequential env c otherPages
             (yield (batch_start c [39034, 24207] (length otherPages) st) st))"

subsubsection \<open>Finish\<close>

definition final_status :: "page_data list \<Rightarrow> jsstring list \<Rightarrow> jsstring" where
  "final_status failed generated =
     (if length failed = 0 then asc ''completed''
      else if length generated > 0 then asc ''partial''
      else asc ''draft'')"

definition finish_event :: "task_ctx \<Rightarrow> gen_state \<Rightarrow> event" where
  "finish_event c st =
     (event_of EvFinish)
       \<lparr>e_success := Some (length (failedPages st) = 0), e_task_id := Some (c_taskId c),
        e_images := Some (generatedImages st), e_total := Some (c_total c),
        e_completed := Some (length (generatedImages st)),
        e_failed := Some (length (failedPages st)),
        e_failed_indices := Some (map p_index (failedPages st))\<rparr>"

definition finish_phase :: "env \<Rightarrow> task_ctx \<Rightarrow> gen_state \<Rightarrow> gen_state" where
  "finish_phase env c st =
     (let w1 = (case c_recordId c of
                  None \<Rightarrow> st_world st
                | Some recordId \<Rightarrow>
                    updateHistoryRecord env recordId
                      \<lparr>u_outline = None,
                       u_images = Some \<lparr>i_task_id = Some (c_taskId c),
                                         i_generated = map Some (generatedImages st)\<rparr>,
                       u_status = Some (final_status (failedPages st) (generatedImages st)),
                       u_thumbnail = None\<rparr> (st_world st))
      in yield (finish_event c st) (st\<lparr>st_world := w1\<rparr>))"

subsubsection \<open>The generator\<close>

text \<open>
  The set-up: the task id (a fresh one when none is given), the task directory, the user's
  images compressed to 200 KB, the task state, and the first update of the record, which
  ties the task id to it and sets the status \<open>generating\<close>.
\<close>

definition start_task ::
  "env \<Rightarrow> page_data list \<Rightarrow> jsstring option \<Rightarrow> jsstring \<Rightarrow> bytes list option \<Rightarrow> jsstring
   \<Rightarrow> jsstring option \<Rightarrow> world \<Rightarrow> task_ctx \<times> world" where
  "start_task env pages taskId fullOutline userImages userTopic recordId w =
     (let tid = (case or_null taskId of None \<Rightarrow> new_task_id env | Some t \<Rightarrow> t);
          w1 = w\<lparr>currentTaskDir := Some tid, history := ensure_dir tid (history w)\<rparr>;
          compressedUserImages =
            (case userImages of
               None \<Rightarrow> None
             | Some imgs \<Rightarrow> if imgs = [] then None
                            else Some (map (\<lambda>img. compressImage env img 200) imgs));
          w2 = w1\<lparr>taskStates := (taskStates w1)(tid \<mapsto>
                    \<lparr>ts_pages = pages, ts_generated = (\<lambda>_. None), ts_failed = (\<lambda>_. None),
                     ts_cover_image = None, ts_full_outline = fullOutline,
                     ts_user_images = compressedUserImages, ts_user_topic = userTopic\<rparr>)\<rparr>;
          c = \<lparr>c_taskId = tid, c_fullOutline = fullOutline,
               c_userImages = compressedUserImages, c_userTopic = userTopic,
               c_recordId = or_null recordId, c_total = length pages\<rparr>;
          w3 = (case c_recordId c of
                  None \<Rightarrow> w2
                | Some rid \<Rightarrow>
                    (let currentImages =
                           (case getRecord (history w2) rid of
                              None \<Rightarrow> \<lparr>i_task_id = None, i_generated = []\<rparr>
                            | Some record \<Rightarrow> r_images record)
                     in updateHistoryRecord env rid
                          \<lparr>u_outline = None,
                           u_images = Some (currentImages\<lparr>i_task_id := Some tid\<rparr>),
                           u_status = Some (asc ''generating''), u_thumbnail = None\<rparr> w2))
      in (c, w3))"

definition generateImages ::
  "env \<Rightarrow> page_data list \<Rightarrow> jsstring option \<Rightarrow> jsstring \<Rightarrow> bytes list option \<Rightarrow> jsstring
   \<Rightarrow> jsstring option \<Rightarrow> world \<Rightarrow> event list \<times> world" where
  "generateImages env pages taskId fullOutline userImages userTopic recordId w =
     (let (c, w0) = start_task env pages taskId fullOutline userImages userTopic recordId w;
          (coverPage, otherPages) = partition_pages pages;
          st0 = \<lparr>st_events = [], generatedImages = [], failedPages = [],
                 coverImageData = None, st_world = w0\<rparr>;
          st1 = (case coverPage of None \<Rightarrow> st0 | Some page \<Rightarrow> cover_phase env c page st0);
          st2 = content_phase env c otherPages st1;
          st3 = finish_phase env c st2
      in (st_events st3, st_world st3))"

subsection \<open>Retrying pages\<close>

record retry_result =
  rr_success :: bool
  rr_index :: nat
  rr_image_url :: "jsstring option"
  rr_error :: "jsstring option"
  rr_retryable :: "bool option"

text \<open>\<open>x || ''\<close> and \<open>if (!x) x = y\<close> on an optional string.\<close>

definition or_else :: "jsstring option \<Rightarrow> jsstring \<Rightarrow> jsstring" where
  "or_else x y = (case or_null x of None \<Rightarrow> y | Some s \<Rightarrow> s)"

text \<open>
  \<open>retrySingleImage\<close> and \<open>retrySingleImageStreaming\<close> start with the same text: the task
  directory, then the context out of the task state when there is one, then the cover file
  \<open>0.png\<close> of the task directory when a reference is wanted and the state gave none.
\<close>

definition enter_task_dir :: "jsstring \<Rightarrow> world \<Rightarrow> world" where
  "enter_task_dir taskId w =
     w\<lparr>currentTaskDir := Some taskId, history := ensure_dir taskId (history w)\<rparr>"

definition cover_from_disk :: "env \<Rightarrow> world \<Rightarrow> bytes option" where
  "cover_from_disk env w =
     (case currentTaskDir w of
        None \<Rightarrow> None
      | Some dir \<Rightarrow>
          (case read_file (history w) dir (asc ''0.png'') of
             None \<Rightarrow> None
           | Some coverData \<Rightarrow> Some (compressImage env coverData 200)))"

definition retry_reference :: "env \<Rightarrow> jsstring \<Rightarrow> bool \<Rightarrow> world \<Rightarrow> bytes option" where
  "retry_reference env taskId useReference w =
     (let referenceImage =
            (case taskStates w taskId of
               None \<Rightarrow> None
             | Some taskState \<Rightarrow> if useReference then ts_cover_image taskState else None)
      in if useReference \<and> referenceImage = None then cover_from_disk env w
         else referenceImage)"

definition retry_fullOutline :: "jsstring \<Rightarrow> jsstring option \<Rightarrow> world \<Rightarrow> jsstring" where
  "retry_fullOutline taskId fullOutline w =
     (case taskStates w taskId of
        None \<Rightarrow> or_else fullOutline []
      | Some taskState \<Rightarrow> or_else (Some (or_else fullOutline (ts_full_outline taskState))) [])"

definition retry_userTopic :: "jsstring \<Rightarrow> jsstring option \<Rightarrow> world \<Rightarrow> jsstring" where
  "retry_userTopic taskId userTopic w =
     (case taskStates w taskId of
        None \<Rightarrow> or_else userTopic []
      | Some taskState \<Rightarrow> or_else (Some (or_else userTopic (ts_user_topic taskState))) [])"

definition retry_userImages :: "jsstring \<Rightarrow> world \<Rightarrow> bytes list option" where
  "retry_userImages taskId w =
     (case taskStates w taskId of None \<Rightarrow> None | Some taskState \<Rightarrow> ts_user_images taskState)"

definition mark_generated :: "jsstring \<Rightarrow> nat \<Rightarrow> jsstring \<Rightarrow> world \<Rightarrow> world" where
  "mark_generated taskId index filename w =
     update_task_state taskId
       (\<lambda>ts. ts\<lparr>ts_generated := (ts_generated ts)(index \<mapsto> filename),
                 ts_failed := (ts_failed ts)(index := None)\<rparr>) w"

definition mark_failed :: "jsstring \<Rightarrow> nat \<Rightarrow> jsstring option \<Rightarrow> world \<Rightarrow> world" where
  "mark_failed taskId index error w =
     update_task_state taskId
       (\<lambda>ts. ts\<lparr>ts_failed := (ts_failed ts)(index \<mapsto> or_unknown error)\<rparr>) w"

definition retrySingleImage ::
  "env \<Rightarrow> jsstring \<Rightarrow> page_data \<Rightarrow> bool \<Rightarrow> jsstring option \<Rightarrow> jsstring option \<Rightarrow> world
   \<Rightarrow> retry_result \<times> world" where
  "retrySingleImage env taskId page useReference fullOutline userTopic w =
     (let w1 = enter_task_dir taskId w;
          referenceImage = retry_reference env taskId useReference w1;
          (r, w2) = generateSingleImage env page referenceImage
                      (retry_fullOutline taskId fullOutline w1) (retry_userImages taskId w1)
                      (retry_userTopic taskId userTopic w1) w1
      in (case succeeded r of
            Some filename \<Rightarrow>
              (\<lparr>rr_success = True, rr_index = g_index r,
                rr_image_url = Some (image_url taskId filename), rr_error = None,
                rr_retryable = None\<rparr>,
               mark_generated taskId (g_index r) filename w2)
          | None \<Rightarrow>
              (\<lparr>rr_success = False, rr_index = g_index r, rr_image_url = None,
                rr_error = Some (or_unknown (g_error r)), rr_retryable = Some True\<rparr>, w2)))"

text \<open>The streaming variant also records the new file in the history record.\<close>

definition retry_record_update :: "env \<Rightarrow> jsstring \<Rightarrow> jsstring option \<Rightarrow> jsstring \<Rightarrow> world \<Rightarrow> world" where
  "retry_record_update env taskId recordId filename w =
     (case or_null recordId of
        None \<Rightarrow> w
      | Some rid \<Rightarrow>
          (case getRecord (history w) rid of
             None \<Rightarrow> w
           | Some record \<Rightarrow>
               (let generated = i_generated (r_images record);
                    updatedGenerated = (if Some filename \<in> set generated then generated
                                        else generated @ [Some filename])
                in updateHistoryRecord env rid
                     \<lparr>u_outline = None,
                      u_images = Some \<lparr>i_task_id = Some taskId,
                                        i_generated = updatedGenerated\<rparr>,
                      u_status = None, u_thumbnail = None\<rparr> w)))"

definition retrySingleImageStreaming ::
  "env \<Rightarrow> jsstring \<Rightarrow> page_data \<Rightarrow> bool \<Rightarrow> jsstring option \<Rightarrow> jsstring option
   \<Rightarrow> jsstring option \<Rightarrow> world \<Rightarrow> event list \<times> world" where
  "retrySingleImageStreaming env taskId page useReference fullOutline userTopic recordId w =
     (let w1 = enter_task_dir taskId w;
          referenceImage = retry_reference env taskId useReference w1;
          progress = (event_of EvProgress)
             \<lparr>e_index := Some (p_index page), e_status := Some (asc ''generating''),
              e_message := Some ([27491, 22312, 37325, 26032, 29983, 25104, 22270, 29255, 32, 91]
                                 @ show_nat (p_index page) @ [93, 46, 46, 46])\<rparr>;
          (r, w2) = generateSingleImage env page referenceImage
                      (retry_fullOutline taskId fullOutline w1) (retry_userImages taskId w1)
                      (retry_userTopic taskId userTopic w1) w1
      in (case succeeded r of
            Some filename \<Rightarrow>
              (let w3 = mark_generated taskId (g_index r) filename w2;
                   w4 = retry_record_update env taskId recordId filename w3
               in ([progress,
                    (event_of EvComplete)
                      \<lparr>e_index := Some (g_index r), e_status := Some (asc ''done''),
                       e_image_url := Some (image_url taskId filename)\<rparr>,
                    (event_of EvFinish)
                      \<lparr>e_success := Some True, e_index := Some (g_index r),
                       e_image_url := Some (image_url taskId filename)\<rparr>], w4))
          | None \<Rightarrow>
              ([progress,
                (event_of EvError)
                  \<lparr>e_index := Some (g_index r), e_status := Some (asc ''error''),
                   e_message := Some (or_unknown (g_error r)), e_retryable := Some True\<rparr>,
                (event_of EvFinish)
                  \<lparr>e_success := Some False, e_index := Some (g_index r),
                   e_error := Some (or_unknown (g_error r))\<rparr>],
               mark_failed taskId (g_index r) (g_error r) w2)))"

text \<open>
  \<open>retryFailedImages\<close> has no \<open>useReference\<close> parameter: it takes the cached cover when
  the task state has one, the cover file otherwise, once, before the loop.
\<close>

definition failed_reference :: "env \<Rightarrow> jsstring \<Rightarrow> world \<Rightarrow> bytes option" where
  "failed_reference env taskId w =
     (case taskStates w taskId of
        None \<Rightarrow> cover_from_disk env w
      | Some taskState \<Rightarrow>
          (case ts_cover_image taskState of
             None \<Rightarrow> cover_from_disk env w
           | Some cover \<Rightarrow> Some cover))"

record retry_state =
  rs_events :: "event list"
  successCount :: nat
  failedCount :: nat
  rs_world :: world

fun retry_loop ::
  "env \<Rightarrow> jsstring \<Rightarrow> nat \<Rightarrow> bytes option \<Rightarrow> jsstring \<Rightarrow> bytes list option \<Rightarrow> jsstring
   \<Rightarrow> page_data list \<Rightarrow> retry_state \<Rightarrow> retry_state" where
  "retry_loop env taskId n_total referenceImage fullOutline userImages userTopic [] st = st"
| "retry_loop env taskId n_total referenceImage fullOutline userImages userTopic (page # rest) st =
     (let start = (event_of EvRetryStart)
            \<lparr>e_index := Some (p_index page), e_status := Some (asc ''retrying''),
             e_message := Some ([37325, 26032, 29983, 25104, 22833, 36133, 30340, 22270, 29255,
                                 32, 91] @ show_nat (p_index page) @ [93, 46, 46, 46]),
             e_current := Some (successCount st), e_total := Some n_total\<rparr>;
          (r, w1) = generateSingleImage env page referenceImage fullOutline userImages
                      userTopic (rs_world st)
      in retry_loop env taskId n_total referenceImage fullOutline userImages userTopic rest
           (case succeeded r of
              Some filename \<Rightarrow>
                st\<lparr>rs_events := rs_events st @
                      [start,
                       (event_of EvRetryFinish)
                         \<lparr>e_index := Some (g_index r), e_status := Some (asc ''done''),
                          e_image_url := Some (image_url taskId filename),
                          e_success := Some True\<rparr>],
                   successCount := successCount st + 1,
                   rs_world := mark_generated taskId (g_index r) filename w1\<rparr>
            | None \<Rightarrow>
                st\<lparr>rs_events := rs_events st @
                      [start,
                       (event_of EvError)
                         \<lparr>e_index := Some (g_index r), e_status := Some (asc ''error''),
                          e_message := Some (or_unknown (g_error r)),
                          e_retryable := Some True\<rparr>],
                   failedCount := failedCount st + 1,
                   rs_world := mark_failed taskId (g_index r) (g_error r) w1\<rparr>))"

definition retryFailedImages ::
  "env \<Rightarrow> jsstring \<Rightarrow> page_data list \<Rightarrow> world \<Rightarrow> event list \<times> world" where
  "retryFailedImages env taskId pages w =
     (let w1 = enter_task_dir taskId w;
          fullOutline = (case taskStates w1 taskId of
                           None \<Rightarrow> [] | Some ts \<Rightarrow> or_else (Some (ts_full_outline ts)) []);
          userTopic = (case taskStates w1 taskId of
                         None \<Rightarrow> [] | Some ts \<Rightarrow> or_else (Some (ts_user_topic ts)) []);
          referenceImage = failed_reference env taskId w1;
          userImages = retry_userImages taskId w1;
          st = retry_loop env taskId (length pages) referenceImage fullOutline userImages
                 userTopic pages
                 \<lparr>rs_events = [], successCount = 0, failedCount = 0, rs_world = w1\<rparr>
      in (rs_events st @
          [(event_of EvFinish)
             \<lparr>e_success := Some (failedCount st = 0), e_task_id := Some taskId,
              e_completed := Some (successCount st), e_failed := Some (failedCount st)\<rparr>],
          rs_world st))"

subsection \<open>The reference image of a retry, in the words of the specification\<close>

text \<open>
  The cached cover bytes when the task state has them; otherwise the contents of \<open>0.png\<close>
  in the task directory, compressed to the byte budget, when that file exists; otherwise
  none.
\<close>

definition expected_reference :: "env \<Rightarrow> jsstring \<Rightarrow> world \<Rightarrow> bytes option" where
  "expected_reference env taskId w =
     (case (case taskStates w taskId of None \<Rightarrow> None | Some ts \<Rightarrow> ts_cover_image ts) of
        Some cached \<Rightarrow> Some cached
      | None \<Rightarrow>
          (case read_file (history w) taskId (asc ''0.png'') of
             Some coverData \<Rightarrow> Some (compressImage env coverData 200)
           | None \<Rightarrow> None))"

text \<open>The reference images a request carries, in order.\<close>

definition request_references :: "gen_request \<Rightarrow> bytes list" where
  "request_references request =
     (case request of
        GoogleGenaiRequest prompt referenceImage \<Rightarrow>
          (case referenceImage of None \<Rightarrow> [] | Some img \<Rightarrow> [img])
      | ImageApiRequest prompt referenceImages \<Rightarrow>
          (case referenceImages of None \<Rightarrow> [] | Some imgs \<Rightarrow> imgs)
      | OpenAIRequest prompt \<Rightarrow> [])"

text \<open>The generator calls and page results a run added to the logs.\<close>

definition new_calls :: "world \<Rightarrow> world \<Rightarrow> gen_request list" where
  "new_calls w w' = drop (length (generator_calls w)) (generator_calls w')"

definition new_results :: "world \<Rightarrow> world \<Rightarrow> (page_data \<times> gen_result) list" where
  "new_results w w' = drop (length (page_results w)) (page_results w')"

section \<open>Example data\<close>

text \<open>
  A store with one record, created for a two-page outline and the task \<open>task_1\<close>, whose
  directory holds three images and their thumbnails.
\<close>

definition example_outline :: outline_data where
  "example_outline =
     \<lparr>o_outline = asc ''A<page>B'',
      o_pages = Some [\<lparr>p_index = 0, p_type = Cover, p_content = asc ''A''\<rparr>,
                      \<lparr>p_index = 1, p_type = Content, p_content = asc ''B''\<rparr>],
      o_has_images = Some False\<rparr>"

definition example_dir :: directory where
  "example_dir =
     [(asc ''0.png'', [1]), (asc ''thumb_0.png'', [2]), (asc ''1.png'', [3]),
      (asc ''thumb_1.png'', [4]), (asc ''2.png'', [5]), (asc ''thumb_2.png'', [6])]"

definition example_store :: store where
  "example_store =
     snd (createRecord (asc ''r1'') (asc ''2024-01-01T00:00:00.000Z'') (asc ''topic'')
            example_outline (Some (asc ''task_1''))
            (empty_store\<lparr>task_dirs := (\<lambda>_. None)(asc ''task_1'' \<mapsto> example_dir)\<rparr>))"

text \<open>\<open>parseInt\<close> on strings of ASCII digits, which is all the examples give it.\<close>

fun parse_digits :: "int \<Rightarrow> jsstring \<Rightarrow> int option" where
  "parse_digits acc [] = Some acc"
| "parse_digits acc (c # cs) =
     (if 48 \<le> c \<and> c \<le> 57 then parse_digits (10 * acc + int (c - 48)) cs else None)"

definition parseInt_digits :: "jsstring \<Rightarrow> int option" where
  "parseInt_digits s = (if s = [] then None else parse_digits 0 s)"

section \<open>Notions used in the statements\<close>

text \<open>
  A result as \<open>_generateSingleImage\<close> returns it for a page: it carries the page's index,
  and it names the file \<open><index>.png\<close> exactly when it reports success.
\<close>

definition result_of_page :: "page_data \<Rightarrow> gen_result \<Rightarrow> bool" where
  "result_of_page page r \<longleftrightarrow>
     g_index r = p_index page \<and>
     succeeded r = (if g_success r then Some (page_filename (p_index page)) else None)"

definition succeeded_files :: "(page_data \<times> gen_result) list \<Rightarrow> jsstring list" where
  "succeeded_files rs = map (\<lambda>pr. page_filename (p_index (fst pr))) (filter (\<lambda>pr. g_success (snd pr)) rs)"

definition failed_pages :: "(page_data \<times> gen_result) list \<Rightarrow> page_data list" where
  "failed_pages rs = map fst (filter (\<lambda>pr. \<not> g_success (snd pr)) rs)"

text \<open>The pages \<open>generateImages\<close> attempts, in the order it attempts them.\<close>

definition attempted_pages :: "page_data list \<Rightarrow> page_data list" where
  "attempted_pages pages =
     (case partition_pages pages of
        (None, otherPages) \<Rightarrow> otherPages
      | (Some coverPage, otherPages) \<Rightarrow> coverPage # otherPages)"

text \<open>
  An event list keeps causal order when every \<open>complete\<close> or \<open>error\<close> event comes after a
  \<open>progress\<close> event with the same page index; the cover comes first when no event of the
  cover phase comes after one of the content phase.
\<close>

definition is_result_event :: "event \<Rightarrow> bool" where
  "is_result_event e \<longleftrightarrow> e_event e = EvComplete \<or> e_event e = EvError"

definition announced_in :: "event list \<Rightarrow> event \<Rightarrow> bool" where
  "announced_in before e \<longleftrightarrow>
     e_index e \<noteq> None \<and>
     list_ex (\<lambda>p. e_event p = EvProgress \<and> e_index p = e_index e) before"

fun causal_order :: "event list \<Rightarrow> event list \<Rightarrow> bool" where
  "causal_order before [] \<longleftrightarrow> True"
| "causal_order before (e # rest) \<longleftrightarrow>
     (if is_result_event e then announced_in before e else True) \<and>
     causal_order (before @ [e]) rest"

fun cover_first :: "event list \<Rightarrow> bool" where
  "cover_first [] \<longleftrightarrow> True"
| "cover_first (e # rest) \<longleftrightarrow>
     (if e_phase e = Some (asc ''content'')
      then list_all (\<lambda>x. e_phase x \<noteq> Some (asc ''cover'')) rest else True) \<and>
     cover_first rest"

section \<open>Example tasks\<close>

text \<open>
  A generator that succeeds on the pages whose prompt is \<open>p0\<close>, \<open>p1\<close> or \<open>p2\<close> and fails
  on every other page, for a five-page outline with the cover first.
\<close>

definition example_prompt_ok :: "gen_request \<Rightarrow> bool" where
  "example_prompt_ok request =
     (case request of
        GoogleGenaiRequest prompt ref \<Rightarrow> prompt \<in> {asc ''p0'', asc ''p1'', asc ''p2''}
      | ImageApiRequest prompt refs \<Rightarrow> prompt \<in> {asc ''p0'', asc ''p1'', asc ''p2''}
      | OpenAIRequest prompt \<Rightarrow> prompt \<in> {asc ''p0'', asc ''p1'', asc ''p2''})"

definition example_env :: "bool \<Rightarrow> jsstring \<Rightarrow> env" where
  "example_env concurrent ptype =
     \<lparr>provider_type = Some ptype, high_concurrency = concurrent,
      generator = (\<lambda>n request. if example_prompt_ok request then Inr [7, 7] else Inl (asc ''quota'')),
      compressImage = (\<lambda>data kb. take kb data),
      render_prompt = (\<lambda>page fullOutline userTopic. p_content page),
      clock = (\<lambda>n. asc ''2024-01-02T00:00:00.000Z''),
      new_task_id = asc ''task_new''\<rparr>"

definition example_pages :: "page_data list" where
  "example_pages =
     [\<lparr>p_index = 0, p_type = Cover, p_content = asc ''p0''\<rparr>,
      \<lparr>p_index = 1, p_type = Content, p_content = asc ''p1''\<rparr>,
      \<lparr>p_index = 2, p_type = Content, p_content = asc ''p2''\<rparr>,
      \<lparr>p_index = 3, p_type = Content, p_content = asc ''p3''\<rparr>,
      \<lparr>p_index = 4, p_type = Summary, p_content = asc ''p4''\<rparr>]"

definition example_world :: world where
  "example_world =
     \<lparr>history = example_store, taskStates = (\<lambda>_. None), currentTaskDir = None, ticks = 0,
      generator_calls = [], page_results = []\<rparr>"

section \<open>Frame conditions\<close>

text \<open>
  What every step of the service keeps: the current task directory stays set to the same
  task, directories and parsable detail files that exist keep existing, and the two logs
  only grow. A quiet step does not touch the logs.
\<close>

definition stable :: "world \<Rightarrow> world \<Rightarrow> bool" where
  "stable w w' \<longleftrightarrow>
     currentTaskDir w' = currentTaskDir w \<and>
     (\<forall>d. task_dirs (history w) d \<noteq> None \<longrightarrow> task_dirs (history w') d \<noteq> None) \<and>
     (\<forall>rid. getRecord (history w) rid \<noteq> None \<longrightarrow> getRecord (history w') rid \<noteq> None)"

definition quiet :: "world \<Rightarrow> world \<Rightarrow> bool" where
  "quiet w w' \<longleftrightarrow>
     stable w w' \<and> generator_calls w' = generator_calls w \<and> page_results w' = page_results w"

definition dir_ready :: "world \<Rightarrow> bool" where
  "dir_ready w \<longleftrightarrow>
     (case currentTaskDir w of None \<Rightarrow> False | Some d \<Rightarrow> task_dirs (history w) d \<noteq> None)"

text \<open>
  A stretch of the generator that handles the pages \<open>ps\<close>: it logs one result per page,
  in order, adds the file names of the successes to \<open>generatedImages\<close> and the failed pages
  to \<open>failedPages\<close>. \<open>P\<close> is what else is known of each page and its result.
\<close>

definition handles ::
  "(page_data \<Rightarrow> gen_result \<Rightarrow> bool) \<Rightarrow> page_data list \<Rightarrow> gen_state \<Rightarrow> gen_state \<Rightarrow> bool" where
  "handles P ps st st' \<longleftrightarrow>
     (\<exists>rs. page_results (st_world st') = page_results (st_world st) @ rs \<and>
           map fst rs = ps \<and>
           list_all (\<lambda>pr. result_of_page (fst pr) (snd pr) \<and> P (fst pr) (snd pr)) rs \<and>
           generatedImages st' = generatedImages st @ succeeded_files rs \<and>
           failedPages st' = failedPages st @ failed_pages rs) \<and>
     stable (st_world st) (st_world st')"

text \<open>\<open>P\<close> holds of every result \<open>_generateSingleImage\<close> returns once the directory is set.\<close>

definition page_rule :: "env \<Rightarrow> (page_data \<Rightarrow> gen_result \<Rightarrow> bool) \<Rightarrow> bool" where
  "page_rule env P \<longleftrightarrow>
     (\<forall>page referenceImage fullOutline userImages userTopic w.
        dir_ready w \<longrightarrow>
        P page (fst (generateSingleImage env page referenceImage fullOutline userImages
                       userTopic w)))"

text \<open>A world in which the task \<open>task_1\<close> has a cached cover.\<close>

definition example_retry_world :: world where
  "example_retry_world =
     example_world\<lparr>taskStates := (\<lambda>_. None)(asc ''task_1'' \<mapsto>
        \<lparr>ts_pages = example_pages, ts_generated = (\<lambda>_. None), ts_failed = (\<lambda>_. None),
         ts_cover_image = Some [1, 2, 3], ts_full_outline = [], ts_user_images = None,
         ts_user_topic = []\<rparr>)\<rparr>"

text \<open>
  The reference images a request of a retry is expected to carry, by provider type: for
  \<open>google_genai\<close> the reference, for \<open>image_api\<close> the user's images of the task state
  followed by the reference, for any other type none.
\<close>

definition passed_references :: "env \<Rightarrow> jsstring \<Rightarrow> world \<Rightarrow> bytes list" where
  "passed_references env taskId w =
     (let reference = (case expected_reference env taskId w of None \<Rightarrow> [] | Some img \<Rightarrow> [img]);
          user = (case taskStates w taskId of
                    None \<Rightarrow> []
                  | Some ts \<Rightarrow> (case ts_user_images ts of None \<Rightarrow> [] | Some imgs \<Rightarrow> imgs))
      in if provider_type env = Some (asc ''google_genai'') then reference
         else if provider_type env = Some (asc ''image_api'') then user @ reference
         else [])"

section \<open>Facts about strings\<close>

lemma asc_eq_iff [simp]: "asc s = asc t \<longleftrightarrow> s = t"
proof -
  have "inj (of_char :: char \<Rightarrow> nat)"
    by (rule injI) simp
  then show ?thesis
    by (simp add: asc_def inj_map_eq_map)
qed

lemma asc_Nil_iff [simp]: "asc s = [] \<longleftrightarrow> s = []" "[] = asc s \<longleftrightarrow> s = []"
  by (auto simp: asc_def)

lemma truthy_asc [simp]: "truthy (asc s) \<longleftrightarrow> s \<noteq> []"
  by (simp add: truthy_def)


section \<open>Properties of the outline parser\<close>

lemma extend_first_not_Nil: "extend_first c segs \<noteq> []"
  by (cases segs) simp_all

lemma split_sep_not_Nil: "split_sep m k s \<noteq> []"
  by (induction m k s rule: split_sep.induct) (simp_all add: extend_first_not_Nil)

lemma length_extend_first: "segs \<noteq> [] \<Longrightarrow> length (extend_first c segs) = length segs"
  by (cases segs) simp_all

lemma length_split_sep: "length (split_sep m k s) = Suc (count_sep m k s)"
  by (induction m k s rule: split_sep.induct)
     (simp_all add: length_extend_first split_sep_not_Nil)

lemma length_pagesRaw: "length (pagesRaw t) = Suc (delimiter_count t)"
  by (simp add: pagesRaw_def delimiter_count_def length_split_sep)

lemma length_forEach_page:
  "length (forEach_page i segs) = length (filter (\<lambda>seg. trim seg \<noteq> []) segs)"
  by (induction segs arbitrary: i) (simp_all add: Let_def)

lemma forEach_page_no_blank:
  "\<forall>seg \<in> set segs. trim seg \<noteq> [] \<Longrightarrow>
   length (forEach_page i segs) = length segs \<and>
   (\<forall>k < length segs. p_index (forEach_page i segs ! k) = i + k)"
proof (induction segs arbitrary: i)
  case Nil
  then show ?case by simp
next
  case (Cons seg segs)
  then have ih: "length (forEach_page (Suc i) segs) = length segs"
    "\<And>k. k < length segs \<Longrightarrow> p_index (forEach_page (Suc i) segs ! k) = Suc i + k"
    by simp_all
  from Cons.prems have ne: "trim seg \<noteq> []" by simp
  show ?case
  proof (intro conjI allI impI)
    show "length (forEach_page i (seg # segs)) = length (seg # segs)"
      using ne ih(1) by (simp add: Let_def)
  next
    fix k assume "k < length (seg # segs)"
    then show "p_index (forEach_page i (seg # segs) ! k) = i + k"
      using ne ih(2) by (cases k) (simp_all add: Let_def)
  qed
qed

text \<open>
  Every produced page carries the position of its segment in the raw split, so the indices
  increase strictly; they are consecutive only when no earlier segment was blank.
\<close>

lemma forEach_page_index_lower:
  "pg \<in> set (forEach_page i segs) \<Longrightarrow> i \<le> p_index pg"
proof (induction segs arbitrary: i)
  case Nil
  then show ?case by simp
next
  case (Cons seg segs)
  then show ?case
    by (fastforce simp: Let_def split: if_splits dest: Suc_leD)
qed

lemma forEach_page_strict_sorted:
  "sorted_wrt (<) (map p_index (forEach_page i segs))"
proof (induction segs arbitrary: i)
  case Nil
  then show ?case by simp
next
  case (Cons seg segs)
  have "\<And>pg. pg \<in> set (forEach_page (Suc i) segs) \<Longrightarrow> i < p_index pg"
    using forEach_page_index_lower by fastforce
  with Cons show ?case by (simp add: Let_def)
qed

text \<open>The types the three labels of the mapping give, and the default.\<close>

lemma typeMapping_labels:
  "typeMapping label_cover = Some Cover"
  "typeMapping label_content = Some Content"
  "typeMapping label_summary = Some Summary"
  by (simp_all add: typeMapping_def label_cover_def label_content_def label_summary_def)

lemma pageType_no_label: "typeMatch t = None \<Longrightarrow> pageType t = Content"
  by (simp add: pageType_def)

lemma pageType_unknown_label:
  "typeMatch t = Some l \<Longrightarrow> l \<notin> set object_prototype_keys \<Longrightarrow>
   l \<noteq> label_cover \<Longrightarrow> l \<noteq> label_summary \<Longrightarrow> pageType t = Content"
  by (simp add: pageType_def typeMapping_def)

lemma parseOutline_scenario:
  "parseOutline [91, 23553, 38754, 93, 10, 65, 10, 60, 112, 97, 103, 101, 62,
                 91, 20869, 23481, 93, 10, 66, 10, 60, 112, 97, 103, 101, 62,
                 91, 24635, 32467, 93, 10, 67] =
   [\<lparr>p_index = 0, p_type = Cover, p_content = [91, 23553, 38754, 93, 10, 65]\<rparr>,
    \<lparr>p_index = 1, p_type = Content, p_content = [91, 20869, 23481, 93, 10, 66]\<rparr>,
    \<lparr>p_index = 2, p_type = Summary, p_content = [91, 24635, 32467, 93, 10, 67]\<rparr>]"
  by (simp add: parseOutline_def pagesRaw_def page_marker_def trim_def is_space_def
      pageType_def typeMapping_def label_cover_def label_content_def label_summary_def)

text \<open>
  C2, as stated: a text with N page delimiters gives N pages. The text \<open>A<page>B\<close> has one
  delimiter and gives two pages.
\<close>

theorem parseOutline_count_counterexample:
  "delimiter_count (asc ''A<page>B'') = 1 \<and> length (parseOutline (asc ''A<page>B'')) = 2"
  by (simp add: delimiter_count_def parseOutline_def pagesRaw_def page_marker_def trim_def
      is_space_def asc_def pageType_def dashes_at_def)

text \<open>
  C2, amended: when none of the segments between the delimiters is blank, a text with N
  delimiters (\<open><page>\<close> in any case once \<open><page>\<close> occurs, \<open>---\<close> otherwise) gives
  N + 1 pages, and the k-th page has index k.
\<close>

theorem parseOutline_pages_and_indices:
  assumes "\<forall>seg \<in> set (pagesRaw t). trim seg \<noteq> []"
  shows "length (parseOutline t) = delimiter_count t + 1 \<and>
         (\<forall>k < length (parseOutline t). p_index (parseOutline t ! k) = k)"
  using forEach_page_no_blank [OF assms, of 0]
  by (simp add: parseOutline_def length_pagesRaw)

theorem parseOutline_pages_and_indices_witness:
  "length (parseOutline (asc ''A<page>B'')) = delimiter_count (asc ''A<page>B'') + 1 \<and>
   length (parseOutline (asc ''A<page>B'')) = 2 \<and>
   p_index (parseOutline (asc ''A<page>B'') ! 0) = 0 \<and>
   p_index (parseOutline (asc ''A<page>B'') ! 1) = 1"
proof -
  have h: "\<forall>seg \<in> set (pagesRaw (asc ''A<page>B'')). trim seg \<noteq> []"
    by (simp add: pagesRaw_def page_marker_def trim_def is_space_def asc_def)
  have d: "delimiter_count (asc ''A<page>B'') = 1"
    by (simp add: delimiter_count_def page_marker_def asc_def)
  show ?thesis
    using parseOutline_pages_and_indices [OF h] d by simp
qed

text \<open>
  C9: a page whose label is not one of the three of the mapping should get the type
  \<open>content\<close>. The label \<open>constructor\<close> is not in the mapping, and the page
  \<open>[constructor]\nA\<close> gets the member inherited from \<open>Object.prototype\<close> as its type.
\<close>

theorem parseOutline_inherited_label:
  "parseOutline (asc ''[constructor]'' @ [10, 65]) =
     [\<lparr>p_index = 0, p_type = ProtoMember (asc ''constructor''),
       p_content = asc ''[constructor]'' @ [10, 65]\<rparr>]
   \<and> asc ''constructor'' \<notin> {label_cover, label_content, label_summary}"
  by (simp add: parseOutline_def pagesRaw_def page_marker_def trim_def is_space_def
      pageType_def typeMapping_def label_cover_def label_content_def label_summary_def
      asc_def object_prototype_keys_def dashes_at_def)

section \<open>Properties of the streaming handler\<close>

lemma settle_fields [simp]:
  "chunkCount (settle r st) = chunkCount st"
  "listening (settle r st) = listening st"
  "buffer (settle r st) = buffer st"
  by (simp_all add: settle_def split: option.splits)

lemma settled_settle:
  "settled (settle r st) = (case settled st of None \<Rightarrow> Some r | Some r' \<Rightarrow> Some r')"
  by (simp add: settle_def split: option.splits)

lemma process_lines_sticky:
  "settled st = Some r \<Longrightarrow> settled (process_lines parse ls st) = Some r"
  by (induction ls arbitrary: st)
     (simp_all add: Let_def settled_settle removeAllListeners_def split: line_kind.splits)

lemma process_lines_pending:
  "settled (process_lines parse ls st) = None \<Longrightarrow>
   listening (process_lines parse ls st) = listening st \<and>
   chunkCount (process_lines parse ls st) = chunkCount st"
  by (induction ls arbitrary: st)
     (auto simp: Let_def settled_settle removeAllListeners_def
           split: line_kind.splits option.splits if_splits)

lemma on_data_sticky: "settled st = Some r \<Longrightarrow> settled (on_data parse chunk st) = Some r"
  by (simp add: on_data_def Let_def settled_settle removeAllListeners_def process_lines_sticky)

lemma deliver_sticky: "settled st = Some r \<Longrightarrow> settled (deliver parse ev st) = Some r"
  by (simp add: deliver_def on_data_sticky on_end_def on_error_def settled_settle
      split: stream_event.splits)

lemma run_stream_sticky: "settled st = Some r \<Longrightarrow> settled (run_stream parse evs st) = Some r"
  by (induction evs arbitrary: st) (simp_all add: deliver_sticky)

lemma run_stream_append:
  "run_stream parse (xs @ ys) st = run_stream parse ys (run_stream parse xs st)"
  by (induction xs arbitrary: st) simp_all

lemma on_data_pending:
  assumes "settled (on_data parse chunk st) = None"
  shows "listening (on_data parse chunk st) = listening st \<and>
         chunkCount (on_data parse chunk st) = Suc (chunkCount st) \<and>
         Suc (chunkCount st) \<le> MAX_CHUNKS"
proof (cases "Suc (chunkCount st) > MAX_CHUNKS")
  case True
  with assms show ?thesis
    by (simp add: on_data_def Let_def settled_settle split: option.splits)
next
  case False
  with assms process_lines_pending show ?thesis
    by (fastforce simp: on_data_def Let_def)
qed

text \<open>While the promise is pending every chunk has been counted and the listeners are on.\<close>

lemma run_data_pending:
  "listening st \<Longrightarrow> settled (run_stream parse (map Data cs) st) = None \<Longrightarrow>
   listening (run_stream parse (map Data cs) st) \<and>
   chunkCount (run_stream parse (map Data cs) st) = chunkCount st + length cs"
proof (induction cs arbitrary: st)
  case Nil
  then show ?case by simp
next
  case (Cons c cs)
  let ?st1 = "deliver parse (Data c) st"
  have st1: "?st1 = on_data parse c st"
    using Cons.prems(1) by (simp add: deliver_def)
  have pend1: "settled ?st1 = None"
  proof (rule ccontr)
    assume "settled ?st1 \<noteq> None"
    then obtain r where "settled ?st1 = Some r" by blast
    then have "settled (run_stream parse (map Data cs) ?st1) = Some r"
      by (rule run_stream_sticky)
    with Cons.prems(2) show False by simp
  qed
  from on_data_pending [of parse c st] pend1 st1 Cons.prems(1)
  have l1: "listening ?st1" and c1: "chunkCount ?st1 = Suc (chunkCount st)"
    by simp_all
  from Cons.IH [OF l1] Cons.prems(2) c1 show ?case by simp
qed

lemma never_stop_lines:
  "\<forall>l. parse l = Ignored \<Longrightarrow> process_lines parse ls st = st"
  by (induction ls) (simp_all add: Let_def)

lemma never_stop_pending:
  assumes "\<forall>l. parse l = Ignored" "length cs \<le> MAX_CHUNKS"
  shows "chunkCount st + length cs \<le> MAX_CHUNKS \<Longrightarrow> listening st \<Longrightarrow> settled st = None \<Longrightarrow>
         settled (run_stream parse (map Data cs) st) = None"
proof (induction cs arbitrary: st)
  case Nil
  then show ?case by simp
next
  case (Cons c cs)
  let ?st1 = "deliver parse (Data c) st"
  have "?st1 = on_data parse c st" using Cons.prems(2) by (simp add: deliver_def)
  then have "settled ?st1 = None \<and> listening ?st1 \<and> chunkCount ?st1 = Suc (chunkCount st)"
    using Cons.prems assms(1) by (simp add: on_data_def Let_def never_stop_lines)
  with Cons.IH [of ?st1] Cons.prems(1) show ?case by simp
qed

text \<open>
  C7: when the stream has delivered 200 chunks and the promise is still pending (no
  terminal marker has been seen, and the stream has neither ended nor failed), the next
  chunk rejects the promise with the chunk-limit error, and nothing that follows changes
  that: the call does not wait for a terminal marker any longer.
\<close>

theorem chunk_limit_rejects:
  assumes "length cs = MAX_CHUNKS"
    and "chat_stream_result parse (map Data cs) = None"
  shows "chat_stream_result parse (map Data cs @ Data c # rest)
         = Some (Rejected (ChunkLimitExceeded 200))"
proof -
  let ?st = "run_stream parse (map Data cs) initial_stream"
  have init: "listening initial_stream" "chunkCount initial_stream = 0"
    by (simp_all add: initial_stream_def)
  from assms(2) have pend: "settled ?st = None"
    by (simp add: chat_stream_result_def)
  from run_data_pending [OF init(1) pend] init(2) assms(1)
  have st: "listening ?st" "chunkCount ?st = MAX_CHUNKS" by simp_all
  have "settled (deliver parse (Data c) ?st) = Some (Rejected (ChunkLimitExceeded 200))"
    using st pend
    by (simp add: deliver_def on_data_def Let_def settled_settle MAX_CHUNKS_def
        removeAllListeners_def)
  then have "settled (run_stream parse rest (deliver parse (Data c) ?st))
             = Some (Rejected (ChunkLimitExceeded 200))"
    by (rule run_stream_sticky)
  then show ?thesis
    by (simp add: chat_stream_result_def run_stream_append)
qed

theorem chunk_limit_rejects_witness:
  "chat_stream_result (\<lambda>l. Ignored)
     (map Data (replicate MAX_CHUNKS (asc ''data: {}'' @ [10])) @ Data (asc ''x'') # [End])
   = Some (Rejected (ChunkLimitExceeded 200))"
proof -
  have len: "length (replicate MAX_CHUNKS (asc ''data: {}'' @ [10])) = MAX_CHUNKS" by simp
  have "settled (run_stream (\<lambda>l. Ignored)
          (map Data (replicate MAX_CHUNKS (asc ''data: {}'' @ [10]))) initial_stream) = None"
    by (rule never_stop_pending) (simp_all add: initial_stream_def)
  then have pend: "chat_stream_result (\<lambda>l. Ignored)
      (map Data (replicate MAX_CHUNKS (asc ''data: {}'' @ [10]))) = None"
    by (simp add: chat_stream_result_def)
  show ?thesis by (rule chunk_limit_rejects [OF len pend])
qed


section \<open>Properties of the history store\<close>

lemma status_names_distinct:
  "asc ''draft'' \<noteq> asc ''completed''" "asc ''draft'' \<noteq> asc ''partial''"
  "asc ''completed'' \<noteq> asc ''partial''" "asc ''completed'' \<noteq> asc ''draft''"
  "asc ''partial'' \<noteq> asc ''draft''" "asc ''partial'' \<noteq> asc ''completed''"
  "asc ''generating'' \<noteq> asc ''completed''" "asc ''generating'' \<noteq> asc ''partial''"
  "asc ''generating'' \<noteq> asc ''draft''"
  by (simp_all add: asc_def)

lemma getRecord_None_iff:
  "getRecord s recordId = None \<longleftrightarrow>
   details s recordId = None \<or> details s recordId = Some Unparsable"
  by (simp add: getRecord_def split: option.splits detail_file.splits)

lemma getRecord_saveIndex [simp]: "getRecord (saveIndex records s) recordId = getRecord s recordId"
  by (simp add: getRecord_def saveIndex_def)

lemma loadIndex_saveIndex [simp]: "loadIndex (saveIndex records s) = records"
  by (simp add: loadIndex_def saveIndex_def)

lemma loadIndex_details_update [simp]: "loadIndex (s\<lparr>details := d\<rparr>) = loadIndex s"
  by (simp add: loadIndex_def)

lemma loadIndex_task_dirs_update [simp]: "loadIndex (s\<lparr>task_dirs := d\<rparr>) = loadIndex s"
  by (simp add: loadIndex_def)

lemma details_saveIndex [simp]: "details (saveIndex records s) = details s"
  by (simp add: saveIndex_def)

lemma task_dirs_saveIndex [simp]: "task_dirs (saveIndex records s) = task_dirs s"
  by (simp add: saveIndex_def)

lemma updateRecord_found:
  assumes "getRecord s recordId = Some record"
  shows "fst (updateRecord now recordId updates s) = True"
    and "getRecord (snd (updateRecord now recordId updates s)) recordId
         = Some (update_detail now updates record)"
    and "rid \<noteq> recordId \<Longrightarrow>
         getRecord (snd (updateRecord now recordId updates s)) rid = getRecord s rid"
    and "task_dirs (snd (updateRecord now recordId updates s)) = task_dirs s"
  using assms by (simp_all add: updateRecord_def Let_def getRecord_def)

lemma updateRecord_not_found:
  "getRecord s recordId = None \<Longrightarrow> updateRecord now recordId updates s = (False, s)"
  by (simp add: updateRecord_def)



lemma length_insert_sorted: "length (insert_sorted cmp a bs) = Suc (length bs)"
  by (induction bs) simp_all

lemma length_sort_files: "length (sort_files parseInt files) = length files"
  by (induction files) (simp_all add: sort_files_def length_insert_sorted)

lemma set_insert_sorted: "set (insert_sorted cmp a bs) = insert a (set bs)"
  by (induction bs) auto

lemma set_sort_files: "set (sort_files parseInt files) = set files"
  by (induction files) (simp_all add: sort_files_def set_insert_sorted)

text \<open>
  C10: when the detail file of \<open>recordId\<close> does not exist or does not parse,
  \<open>updateRecord\<close> returns \<open>false\<close> and the store (index file, detail files, task
  directories) is the one it started from.
\<close>

theorem updateRecord_missing_record:
  assumes "details s recordId = None \<or> details s recordId = Some Unparsable"
  shows "updateRecord now recordId updates s = (False, s)"
  using assms by (simp add: updateRecord_not_found getRecord_None_iff)

theorem updateRecord_missing_record_witness:
  "updateRecord (asc ''2024-01-01T00:00:00.000Z'') (asc ''r1'')
     \<lparr>u_outline = None, u_images = None, u_status = Some (asc ''completed''),
      u_thumbnail = Some (asc ''0.png'')\<rparr>
     (empty_store\<lparr>details := (\<lambda>_. None)(asc ''r1'' \<mapsto> Unparsable)\<rparr>)
   = (False, empty_store\<lparr>details := (\<lambda>_. None)(asc ''r1'' \<mapsto> Unparsable)\<rparr>)"
proof -
  have h: "details (empty_store\<lparr>details := (\<lambda>_. None)(asc ''r1'' \<mapsto> Unparsable)\<rparr>) (asc ''r1'') = None
     \<or> details (empty_store\<lparr>details := (\<lambda>_. None)(asc ''r1'' \<mapsto> Unparsable)\<rparr>) (asc ''r1'')
         = Some Unparsable"
    by simp
  show ?thesis by (rule updateRecord_missing_record [OF h])
qed


lemma example_store_record:
  "getRecord example_store (asc ''r1'') =
     Some \<lparr>r_id = asc ''r1'', r_title = asc ''topic'',
           r_created_at = asc ''2024-01-01T00:00:00.000Z'',
           r_updated_at = asc ''2024-01-01T00:00:00.000Z'',
           r_outline = example_outline,
           r_images = \<lparr>i_task_id = Some (asc ''task_1''), i_generated = []\<rparr>,
           r_status = asc ''draft'', r_thumbnail = None\<rparr>"
  by (simp add: example_store_def createRecord_def Let_def getRecord_def or_null_def
      truthy_def asc_def)


text \<open>
  C3: after an update that succeeds, the index entry of the record should agree with its
  detail file. An update that sets \<open>images\<close> with \<open>task_id: null\<close> clears the task id in the
  detail file and leaves the one of the index entry.
\<close>

theorem updateRecord_index_out_of_sync:
  "index_consistent example_store \<and>
   fst (updateRecord (asc ''2024-01-02T00:00:00.000Z'') (asc ''r1'')
          \<lparr>u_outline = None, u_images = Some \<lparr>i_task_id = None, i_generated = []\<rparr>,
           u_status = None, u_thumbnail = None\<rparr> example_store) = True \<and>
   map x_task_id (loadIndex (snd (updateRecord (asc ''2024-01-02T00:00:00.000Z'') (asc ''r1'')
          \<lparr>u_outline = None, u_images = Some \<lparr>i_task_id = None, i_generated = []\<rparr>,
           u_status = None, u_thumbnail = None\<rparr> example_store))) = [Some (asc ''task_1'')] \<and>
   map_option (\<lambda>r. i_task_id (r_images r))
     (getRecord (snd (updateRecord (asc ''2024-01-02T00:00:00.000Z'') (asc ''r1'')
          \<lparr>u_outline = None, u_images = Some \<lparr>i_task_id = None, i_generated = []\<rparr>,
           u_status = None, u_thumbnail = None\<rparr> example_store)) (asc ''r1'')) = Some None \<and>
   \<not> index_consistent (snd (updateRecord (asc ''2024-01-02T00:00:00.000Z'') (asc ''r1'')
          \<lparr>u_outline = None, u_images = Some \<lparr>i_task_id = None, i_generated = []\<rparr>,
           u_status = None, u_thumbnail = None\<rparr> example_store))"
  by (simp add: example_store_def createRecord_def Let_def getRecord_def or_null_def
      truthy_def updateRecord_def update_detail_def update_entry_def index_consistent_def
      entry_matches_def empty_store_def loadIndex_def saveIndex_def pages_length_def
      example_outline_def)

subsection \<open>The status a directory scan writes\<close>

lemma scan_status_iff:
  "scan_status actual expected = asc ''draft'' \<longleftrightarrow> actual = 0"
  "scan_status actual expected = asc ''completed'' \<longleftrightarrow> 0 < actual \<and> expected \<le> actual"
  "scan_status actual expected = asc ''partial'' \<longleftrightarrow> 0 < actual \<and> actual < expected"
  by (auto simp: scan_status_def)

lemma update_detail_fields:
  "r_status (update_detail now updates r) = (case u_status updates of None \<Rightarrow> r_status r | Some st \<Rightarrow> st)"
  "r_images (update_detail now updates r) = (case u_images updates of None \<Rightarrow> r_images r | Some im \<Rightarrow> im)"
  "r_outline (update_detail now updates r) = (case u_outline updates of None \<Rightarrow> r_outline r | Some ol \<Rightarrow> ol)"
  "r_updated_at (update_detail now updates r) = now"
  by (simp_all add: update_detail_def Let_def split: option.splits)

lemma scanAndSync_synced:
  assumes "scanAndSyncTaskImages parseInt now taskId s = (ScanSynced recordId t files st, s')"
  shows "\<exists>r. getRecord s' recordId = Some r \<and> r_status r = st \<and>
             i_generated (r_images r) = map Some files \<and>
             st = scan_status (length files) (pages_length (r_outline r))"
proof -
  from assms obtain dir r0 where
    dir: "task_dirs s taskId = Some dir" and
    r0: "getRecord s recordId = Some r0" and
    files: "files = sort_files parseInt (filter is_image_file (map fst dir))" and
    st: "st = scan_status (length files) (pages_length (r_outline r0))" and
    s': "s' = snd (updateRecord now recordId
                \<lparr>u_outline = None,
                 u_images = Some \<lparr>i_task_id = Some taskId, i_generated = map Some files\<rparr>,
                 u_status = Some st,
                 u_thumbnail = (case files of [] \<Rightarrow> None | f # _ \<Rightarrow> Some f)\<rparr> s)"
    by (auto simp: scanAndSyncTaskImages_def Let_def split: option.splits)
  show ?thesis
    unfolding s' using st
    by (simp add: updateRecord_found(2) [OF r0] update_detail_fields)
qed


section \<open>Properties of single-page generation\<close>

lemma stable_refl [simp]: "stable w w"
  by (simp add: stable_def)

lemma stable_trans: "stable w w1 \<Longrightarrow> stable w1 w2 \<Longrightarrow> stable w w2"
  by (simp add: stable_def)

lemma quiet_refl [simp]: "quiet w w"
  by (simp add: quiet_def)

lemma quiet_trans: "quiet w w1 \<Longrightarrow> quiet w1 w2 \<Longrightarrow> quiet w w2"
  using stable_trans by (auto simp: quiet_def)

lemma dir_ready_stable: "stable w w' \<Longrightarrow> dir_ready w \<Longrightarrow> dir_ready w'"
  by (auto simp: stable_def dir_ready_def split: option.splits)

lemma update_task_state_quiet: "quiet w (update_task_state taskId f w)"
  by (simp add: update_task_state_def quiet_def stable_def split: option.splits)

lemma updateRecord_keeps_records:
  "getRecord s rid \<noteq> None \<Longrightarrow> getRecord (snd (updateRecord now recordId updates s)) rid \<noteq> None"
  by (cases "getRecord s recordId")
     (auto simp: updateRecord_def Let_def getRecord_def)

lemma updateRecord_task_dirs:
  "task_dirs (snd (updateRecord now recordId updates s)) = task_dirs s"
  by (cases "getRecord s recordId") (simp_all add: updateRecord_def Let_def)

lemma updateHistoryRecord_quiet: "quiet w (updateHistoryRecord env recordId updates w)"
  by (simp add: updateHistoryRecord_def quiet_def stable_def updateRecord_keeps_records
      updateRecord_task_dirs)

lemma cover_record_update_quiet: "quiet w (cover_record_update env c index filename w)"
  by (simp add: cover_record_update_def Let_def updateHistoryRecord_quiet split: option.splits)

lemma page_filename_truthy [simp]: "truthy (page_filename index)"
  by (simp add: page_filename_def truthy_def)

lemma map_of_write_file: "map_of (write_file name content dir) = (map_of dir)(name \<mapsto> content)"
  by (induction dir) (auto simp: fun_eq_iff)

lemma saveImage_Inr:
  assumes "saveImage env imageData filename w = Inr w'"
  shows "stable w w'" and "generator_calls w' = generator_calls w"
    and "page_results w' = page_results w" and "taskStates w' = taskStates w"
    and "ticks w' = ticks w"
    and "details (history w') = details (history w)"
    and "index_file (history w') = index_file (history w)"
    and "\<exists>dir. currentTaskDir w = Some dir \<and>
               read_file (history w') dir filename = Some imageData"
  using assms
  by (auto simp: saveImage_def Let_def stable_def getRecord_def read_file_def
      map_of_write_file split: option.splits)

lemma saveImage_ready:
  "dir_ready w \<Longrightarrow> \<exists>w'. saveImage env imageData filename w = Inr w'"
  by (auto simp: saveImage_def dir_ready_def Let_def split: option.splits)

text \<open>The attempts: what the loop returns and what it leaves behind.\<close>

lemma attempt_loop_spec:
  assumes "attempt_loop env page request attempts w = (r, w')"
  shows "stable w w' \<and> page_results w' = page_results w \<and> taskStates w' = taskStates w \<and>
         ticks w' = ticks w \<and> details (history w') = details (history w) \<and>
         index_file (history w') = index_file (history w) \<and>
         result_of_page page r \<and>
         (\<exists>k \<le> length attempts. generator_calls w' = generator_calls w @ replicate k request \<and>
              (attempts \<noteq> [] \<longrightarrow> 0 < k)) \<and>
         (g_success r \<longrightarrow> (\<exists>dir img. currentTaskDir w = Some dir \<and>
              read_file (history w') dir (page_filename (p_index page)) = Some img))"
  using assms
proof (induction attempts arbitrary: w)
  case Nil
  then show ?case by (auto simp: result_of_page_def succeeded_def)
next
  case (Cons attempt rest)
  let ?w1 = "w\<lparr>generator_calls := generator_calls w @ [request]\<rparr>"
  let ?saved = "(case generator env (length (generator_calls w)) request of
                   Inl message \<Rightarrow> Inl message
                 | Inr imageData \<Rightarrow> saveImage env imageData (page_filename (p_index page)) ?w1)"
  have w1: "stable w ?w1" "page_results ?w1 = page_results w" "taskStates ?w1 = taskStates w"
    "ticks ?w1 = ticks w" "history ?w1 = history w" "currentTaskDir ?w1 = currentTaskDir w"
    by (simp_all add: stable_def)
  show ?case
  proof (cases ?saved)
    case (Inr w2)
    then obtain imageData where
      sv: "saveImage env imageData (page_filename (p_index page)) ?w1 = Inr w2"
      by (auto split: sum.splits)
    from Cons.prems Inr have r: "r = \<lparr>g_index = p_index page, g_success = True,
        g_filename = Some (page_filename (p_index page)), g_error = None\<rparr>" and w': "w' = w2"
      by (simp_all add: Let_def)
    have calls: "generator_calls w' = generator_calls w @ replicate 1 request"
      using saveImage_Inr(2) [OF sv] w' by simp
    have "\<exists>k \<le> length (attempt # rest).
            generator_calls w' = generator_calls w @ replicate k request \<and>
            (attempt # rest \<noteq> [] \<longrightarrow> 0 < k)"
      using calls by (intro exI [of _ 1]) simp
    moreover have "result_of_page page r"
      by (simp add: r result_of_page_def succeeded_def)
    moreover have "stable w w'"
      using stable_trans [OF w1(1) saveImage_Inr(1) [OF sv]] w' by simp
    moreover have "\<exists>dir img. currentTaskDir w = Some dir \<and>
              read_file (history w') dir (page_filename (p_index page)) = Some img"
      using saveImage_Inr(8) [OF sv] w' by auto
    ultimately show ?thesis
      using saveImage_Inr(3-7) [OF sv] w' by simp
  next
    case (Inl message)
    show ?thesis
    proof (cases "attempt < AUTO_RETRY_COUNT - 1")
      case True
      with Cons.prems Inl have rec: "attempt_loop env page request rest ?w1 = (r, w')"
        by (simp add: Let_def)
      from Cons.IH [OF rec] obtain k where
        ih: "stable ?w1 w'" "page_results w' = page_results w" "taskStates w' = taskStates w"
          "ticks w' = ticks w" "details (history w') = details (history w)"
          "index_file (history w') = index_file (history w)" "result_of_page page r"
          "g_success r \<longrightarrow> (\<exists>dir img. currentTaskDir w = Some dir \<and>
              read_file (history w') dir (page_filename (p_index page)) = Some img)"
        and k: "k \<le> length rest"
          "generator_calls w' = generator_calls ?w1 @ replicate k request"
        by auto
      have "generator_calls w' = generator_calls w @ replicate (Suc k) request"
        using k(2) by (simp add: replicate_app_Cons_same)
      then have "\<exists>k \<le> length (attempt # rest).
            generator_calls w' = generator_calls w @ replicate k request \<and>
            (attempt # rest \<noteq> [] \<longrightarrow> 0 < k)"
        using k(1) by (intro exI [of _ "Suc k"]) simp
      moreover have "stable w w'"
        using stable_trans [OF w1(1) ih(1)] .
      ultimately show ?thesis using ih(2-8) by simp
    next
      case False
      with Cons.prems Inl have r: "r = \<lparr>g_index = p_index page, g_success = False,
          g_filename = None, g_error = Some (error_text message)\<rparr>" and w': "w' = ?w1"
        by (simp_all add: Let_def)
      have "\<exists>k \<le> length (attempt # rest).
            generator_calls w' = generator_calls w @ replicate k request \<and>
            (attempt # rest \<noteq> [] \<longrightarrow> 0 < k)"
        using w' by (intro exI [of _ 1]) simp
      moreover have "result_of_page page r"
        by (simp add: r result_of_page_def succeeded_def)
      ultimately show ?thesis using w1 w' r by simp
    qed
  qed
qed

lemma generateSingleImage_spec:
  assumes "generateSingleImage env page referenceImage fullOutline userImages userTopic w
           = (r, w')"
  shows "stable w w'"
    and "page_results w' = page_results w @ [(page, r)]"
    and "result_of_page page r"
    and "taskStates w' = taskStates w" and "ticks w' = ticks w"
    and "details (history w') = details (history w)"
    and "index_file (history w') = index_file (history w)"
    and "\<exists>k prompt. 0 < k \<and> k \<le> AUTO_RETRY_COUNT \<and>
           generator_calls w' = generator_calls w @
             replicate k (generator_kwargs env prompt referenceImage userImages)"
    and "g_success r \<Longrightarrow> \<exists>dir img. currentTaskDir w = Some dir \<and>
           read_file (history w') dir (page_filename (p_index page)) = Some img"
proof -
  let ?prompt = "render_prompt env page fullOutline
                   (if truthy userTopic then userTopic else [26410, 25552, 20379])"
  let ?req = "generator_kwargs env ?prompt referenceImage userImages"
  obtain r1 w1 where loop: "attempt_loop env page ?req [0..<AUTO_RETRY_COUNT] w = (r1, w1)"
    by (cases "attempt_loop env page ?req [0..<AUTO_RETRY_COUNT] w")
  from assms loop have r: "r = r1"
    and w': "w' = w1\<lparr>page_results := page_results w1 @ [(page, r1)]\<rparr>"
    by (auto simp: generateSingleImage_def Let_def)
  note spec = attempt_loop_spec [OF loop]
  from spec show "stable w w'" by (simp add: w' stable_def)
  from spec show "page_results w' = page_results w @ [(page, r)]" by (simp add: w' r)
  from spec show "result_of_page page r" by (simp add: r)
  from spec show "taskStates w' = taskStates w" by (simp add: w')
  from spec show "ticks w' = ticks w" by (simp add: w')
  from spec show "details (history w') = details (history w)" by (simp add: w')
  from spec show "index_file (history w') = index_file (history w)" by (simp add: w')
  from spec obtain k where "k \<le> length [0..<AUTO_RETRY_COUNT]"
    "generator_calls w1 = generator_calls w @ replicate k ?req" "0 < k"
    by (auto simp: AUTO_RETRY_COUNT_def)
  then show "\<exists>k prompt. 0 < k \<and> k \<le> AUTO_RETRY_COUNT \<and>
           generator_calls w' = generator_calls w @
             replicate k (generator_kwargs env prompt referenceImage userImages)"
    by (auto simp: w')
  from spec show "g_success r \<Longrightarrow> \<exists>dir img. currentTaskDir w = Some dir \<and>
           read_file (history w') dir (page_filename (p_index page)) = Some img"
    by (simp add: w' r)
qed

section \<open>Properties of a task\<close>

subsection \<open>Results, generated files and failed pages\<close>

lemma succeeded_files_simps [simp]:
  "succeeded_files [] = []"
  "succeeded_files (rs @ rs') = succeeded_files rs @ succeeded_files rs'"
  "succeeded_files [(p, r)] = (if g_success r then [page_filename (p_index p)] else [])"
  by (simp_all add: succeeded_files_def)

lemma failed_pages_simps [simp]:
  "failed_pages [] = []"
  "failed_pages (rs @ rs') = failed_pages rs @ failed_pages rs'"
  "failed_pages [(p, r)] = (if g_success r then [] else [p])"
  by (simp_all add: failed_pages_def)

lemma succeeded_files_Cons:
  "succeeded_files (pr # rs) = succeeded_files [pr] @ succeeded_files rs"
  by (simp add: succeeded_files_def)

lemma failed_pages_Cons: "failed_pages (pr # rs) = failed_pages [pr] @ failed_pages rs"
  by (simp add: failed_pages_def)

lemma length_succeeded_failed:
  "length (succeeded_files rs) + length (failed_pages rs) = length rs"
  by (simp add: succeeded_files_def failed_pages_def sum_length_filter_compl)

lemma handles_refl [simp]: "handles P [] st st"
  by (simp add: handles_def)

lemma handles_trans:
  assumes "handles P ps st st1" "handles P ps' st1 st2"
  shows "handles P (ps @ ps') st st2"
proof -
  from assms(1) obtain rs where rs:
    "page_results (st_world st1) = page_results (st_world st) @ rs" "map fst rs = ps"
    "list_all (\<lambda>pr. result_of_page (fst pr) (snd pr) \<and> P (fst pr) (snd pr)) rs"
    "generatedImages st1 = generatedImages st @ succeeded_files rs"
    "failedPages st1 = failedPages st @ failed_pages rs"
    and s1: "stable (st_world st) (st_world st1)"
    by (auto simp: handles_def)
  from assms(2) obtain rs' where rs':
    "page_results (st_world st2) = page_results (st_world st1) @ rs'" "map fst rs' = ps'"
    "list_all (\<lambda>pr. result_of_page (fst pr) (snd pr) \<and> P (fst pr) (snd pr)) rs'"
    "generatedImages st2 = generatedImages st1 @ succeeded_files rs'"
    "failedPages st2 = failedPages st1 @ failed_pages rs'"
    and s2: "stable (st_world st1) (st_world st2)"
    by (auto simp: handles_def)
  have "page_results (st_world st2) = page_results (st_world st) @ (rs @ rs') \<and>
        map fst (rs @ rs') = ps @ ps' \<and>
        list_all (\<lambda>pr. result_of_page (fst pr) (snd pr) \<and> P (fst pr) (snd pr)) (rs @ rs') \<and>
        generatedImages st2 = generatedImages st @ succeeded_files (rs @ rs') \<and>
        failedPages st2 = failedPages st @ failed_pages (rs @ rs')"
    using rs rs' by simp
  then show ?thesis
    unfolding handles_def using stable_trans [OF s1 s2] by blast
qed

lemma handles_dir_ready:
  "handles P ps st st' \<Longrightarrow> dir_ready (st_world st) \<Longrightarrow> dir_ready (st_world st')"
  using dir_ready_stable by (auto simp: handles_def)

lemma page_ruleD:
  assumes "page_rule env P" "dir_ready w"
    "generateSingleImage env page referenceImage fullOutline userImages userTopic w = (r, w')"
  shows "P page r"
proof -
  from assms(1,2) have "P page (fst (generateSingleImage env page referenceImage fullOutline
                                       userImages userTopic w))"
    unfolding page_rule_def by blast
  with assms(3) show ?thesis by simp
qed

lemma yield_fields [simp]:
  "generatedImages (yield e st) = generatedImages st"
  "failedPages (yield e st) = failedPages st"
  "coverImageData (yield e st) = coverImageData st"
  "st_world (yield e st) = st_world st"
  "st_events (yield e st) = st_events st @ [e]"
  by (simp_all add: yield_def)

text \<open>What follows a result: the accumulators and the world.\<close>

lemma content_result_acc:
  assumes "result_of_page page r"
  shows "generatedImages (content_result env c page r st)
         = generatedImages st @ succeeded_files [(page, r)]"
    and "failedPages (content_result env c page r st)
         = failedPages st @ failed_pages [(page, r)]"
    and "coverImageData (content_result env c page r st) = coverImageData st"
    and "quiet (st_world st) (st_world (content_result env c page r st))"
proof -
  have q: "quiet (st_world st) (case c_recordId c of
                       None \<Rightarrow> update_task_state (c_taskId c) f (st_world st)
                     | Some recordId \<Rightarrow>
                         updateHistoryRecord env recordId u
                           (update_task_state (c_taskId c) f (st_world st)))" for f u
    using quiet_trans [OF update_task_state_quiet updateHistoryRecord_quiet]
    by (simp add: update_task_state_quiet split: option.splits)
  show "generatedImages (content_result env c page r st)
         = generatedImages st @ succeeded_files [(page, r)]"
    using assms by (auto simp: content_result_def result_of_page_def Let_def)
  show "failedPages (content_result env c page r st)
         = failedPages st @ failed_pages [(page, r)]"
    using assms by (auto simp: content_result_def result_of_page_def Let_def)
  show "coverImageData (content_result env c page r st) = coverImageData st"
    by (simp add: content_result_def Let_def split: option.splits)
  show "quiet (st_world st) (st_world (content_result env c page r st))"
    using assms q
    by (auto simp: content_result_def result_of_page_def Let_def update_task_state_quiet)
qed

lemma content_sequential_handles:
  assumes "page_rule env P"
  shows "dir_ready (st_world st) \<Longrightarrow>
         handles P pages st (content_sequential env c pages st) \<and>
         coverImageData (content_sequential env c pages st) = coverImageData st"
proof (induction pages arbitrary: st)
  case Nil
  then show ?case by simp
next
  case (Cons page rest)
  let ?st1 = "yield (content_progress c page st) st"
  obtain r w1 where gen: "generate_content_page env c (coverImageData ?st1) page (st_world ?st1)
                          = (r, w1)"
    by (cases "generate_content_page env c (coverImageData ?st1) page (st_world ?st1)")
  let ?st2 = "content_result env c page r (?st1\<lparr>st_world := w1\<rparr>)"
  have unfold: "content_sequential env c (page # rest) st = content_sequential env c rest ?st2"
    using gen by (simp add: Let_def)
  from gen have g: "generateSingleImage env page (coverImageData st) (c_fullOutline c)
                      (c_userImages c) (c_userTopic c) (st_world st) = (r, w1)"
    by (simp add: generate_content_page_def)
  note spec = generateSingleImage_spec [OF g]
  note acc = content_result_acc [OF spec(3), where env = env and c = c
      and st = "?st1\<lparr>st_world := w1\<rparr>"]
  have P: "P page r"
    using page_ruleD [OF assms Cons.prems g] .
  have step: "handles P [page] st ?st2"
  proof -
    have "page_results (st_world ?st2) = page_results (st_world st) @ [(page, r)]"
      using acc(4) spec(2) by (simp add: quiet_def)
    moreover have "stable (st_world st) (st_world ?st2)"
      using stable_trans [OF spec(1)] acc(4) by (simp add: quiet_def)
    ultimately show ?thesis
      unfolding handles_def using acc(1,2) spec(3) P
      by (intro conjI exI [of _ "[(page, r)]"]) simp_all
  qed
  have cov: "coverImageData ?st2 = coverImageData st"
    using acc(3) by simp
  have ready: "dir_ready (st_world ?st2)"
    using handles_dir_ready [OF step Cons.prems] .
  from handles_trans [OF step] Cons.IH [OF ready] cov show ?case
    unfolding unfold by simp
qed

lemma yield_progress_fields [simp]:
  "generatedImages (yield_progress c pages st) = generatedImages st"
  "failedPages (yield_progress c pages st) = failedPages st"
  "coverImageData (yield_progress c pages st) = coverImageData st"
  "st_world (yield_progress c pages st) = st_world st"
  by (induction pages arbitrary: st) simp_all

lemma run_all_spec:
  assumes "page_rule env P"
  shows "run_all env c cover pages w = (results, w') \<Longrightarrow> dir_ready w \<Longrightarrow>
         length results = length pages \<and> stable w w' \<and>
         page_results w' = page_results w @ zip pages results \<and>
         list_all (\<lambda>pr. result_of_page (fst pr) (snd pr) \<and> P (fst pr) (snd pr))
           (zip pages results)"
proof (induction pages arbitrary: w results w')
  case Nil
  then show ?case by simp
next
  case (Cons page rest)
  obtain r w1 where gen: "generate_content_page env c cover page w = (r, w1)"
    by (cases "generate_content_page env c cover page w")
  obtain rs w2 where rest: "run_all env c cover rest w1 = (rs, w2)"
    by (cases "run_all env c cover rest w1")
  from Cons.prems(1) gen rest have res: "results = r # rs" and w': "w' = w2"
    by (simp_all add: Let_def)
  from gen have g: "generateSingleImage env page cover (c_fullOutline c)
                      (c_userImages c) (c_userTopic c) w = (r, w1)"
    by (simp add: generate_content_page_def)
  note spec = generateSingleImage_spec [OF g]
  have P: "P page r"
    using page_ruleD [OF assms Cons.prems(2) g] .
  have ready: "dir_ready w1"
    using dir_ready_stable [OF spec(1) Cons.prems(2)] .
  from Cons.IH [OF rest ready] spec(1,2,3) stable_trans [OF spec(1)] P show ?case
    by (simp add: res w')
qed

lemma handle_results_acc:
  assumes "list_all (\<lambda>pr. result_of_page (fst pr) (snd pr)) prs"
  shows "generatedImages (handle_results env c prs st) = generatedImages st @ succeeded_files prs \<and>
         failedPages (handle_results env c prs st) = failedPages st @ failed_pages prs \<and>
         coverImageData (handle_results env c prs st) = coverImageData st \<and>
         quiet (st_world st) (st_world (handle_results env c prs st))"
  using assms
proof (induction prs arbitrary: st)
  case Nil
  then show ?case by simp
next
  case (Cons pr prs)
  obtain page r where pr: "pr = (page, r)" by (cases pr)
  from Cons.prems pr have rp: "result_of_page page r"
    and rest: "list_all (\<lambda>pr. result_of_page (fst pr) (snd pr)) prs"
    by simp_all
  note acc = content_result_acc [OF rp, where env = env and c = c and st = st]
  from Cons.IH [OF rest, where st = "content_result env c page r st"] acc
    quiet_trans [OF acc(4)]
  have "generatedImages (handle_results env c prs (content_result env c page r st))
          = generatedImages st @ succeeded_files ((page, r) # prs)"
    "failedPages (handle_results env c prs (content_result env c page r st))
          = failedPages st @ failed_pages ((page, r) # prs)"
    "coverImageData (handle_results env c prs (content_result env c page r st))
          = coverImageData st"
    "quiet (st_world st) (st_world (handle_results env c prs (content_result env c page r st)))"
    by (simp_all add: succeeded_files_Cons [of "(page, r)" prs]
        failed_pages_Cons [of "(page, r)" prs]
        del: succeeded_files_simps(3) failed_pages_simps(3))
  then show ?case by (simp add: pr)
qed

lemma content_concurrent_handles:
  assumes "page_rule env P" "dir_ready (st_world st)"
  shows "handles P pages st (content_concurrent env c pages st) \<and>
         coverImageData (content_concurrent env c pages st) = coverImageData st"
proof -
  let ?st1 = "yield_progress c pages st"
  obtain results w1 where run: "run_all env c (coverImageData ?st1) pages (st_world ?st1)
                                = (results, w1)"
    by (cases "run_all env c (coverImageData ?st1) pages (st_world ?st1)")
  let ?st2 = "handle_results env c (zip pages results) (?st1\<lparr>st_world := w1\<rparr>)"
  have unfold: "content_concurrent env c pages st = ?st2"
    using run by (simp add: content_concurrent_def Let_def)
  have ready: "dir_ready (st_world ?st1)" using assms(2) by simp
  from run_all_spec [OF assms(1) run ready] have len: "length results = length pages"
    and st: "stable (st_world st) w1"
    and log: "page_results w1 = page_results (st_world st) @ zip pages results"
    and ok: "list_all (\<lambda>pr. result_of_page (fst pr) (snd pr) \<and> P (fst pr) (snd pr))
               (zip pages results)"
    by simp_all
  from ok have ok': "list_all (\<lambda>pr. result_of_page (fst pr) (snd pr)) (zip pages results)"
    by (simp add: list_all_iff)
  note acc = handle_results_acc [OF ok', where env = env and c = c
      and st = "?st1\<lparr>st_world := w1\<rparr>"]
  have "page_results (st_world ?st2) = page_results (st_world st) @ zip pages results"
    using acc log by (simp add: quiet_def)
  moreover have "map fst (zip pages results) = pages"
    using len by simp
  moreover have "stable (st_world st) (st_world ?st2)"
    using stable_trans [OF st] acc by (simp add: quiet_def)
  ultimately have "handles P pages st ?st2"
    unfolding handles_def using acc ok
    by (intro conjI exI [of _ "zip pages results"]) simp_all
  then show ?thesis
    unfolding unfold using acc by simp
qed

lemma content_phase_handles:
  assumes "page_rule env P" "dir_ready (st_world st)"
  shows "handles P otherPages st (content_phase env c otherPages st) \<and>
         coverImageData (content_phase env c otherPages st) = coverImageData st"
proof -
  have y: "handles P [] st (yield e st)" for e
    by (simp add: handles_def)
  have r: "dir_ready (st_world (yield e st))" for e
    using assms(2) by simp
  show ?thesis
    using handles_trans [OF y, where ps' = otherPages]
      content_concurrent_handles [OF assms(1) r, where pages = otherPages and c = c]
      content_sequential_handles [OF assms(1) r, where pages = otherPages and c = c]
    by (auto simp: content_phase_def)
qed

lemma cover_phase_handles:
  assumes "page_rule env P" "dir_ready (st_world st)"
  shows "handles P [coverPage] st (cover_phase env c coverPage st)"
proof -
  let ?st1 = "yield (cover_progress c coverPage) st"
  obtain r w1 where g: "generateSingleImage env coverPage None (c_fullOutline c)
                          (c_userImages c) (c_userTopic c) (st_world st) = (r, w1)"
    by (cases "generateSingleImage env coverPage None (c_fullOutline c)
                 (c_userImages c) (c_userTopic c) (st_world st)")
  note spec = generateSingleImage_spec [OF g]
  have P: "P coverPage r"
    using page_ruleD [OF assms g] .
  let ?st' = "cover_phase env c coverPage st"
  have q: "quiet w1 (st_world ?st')"
    using g
    by (auto simp: cover_phase_def Let_def split: option.splits
        intro!: update_task_state_quiet
                quiet_trans [OF update_task_state_quiet]
                quiet_trans [OF update_task_state_quiet
                  quiet_trans [OF update_task_state_quiet cover_record_update_quiet]])
  have gen: "generatedImages ?st' = generatedImages st @ succeeded_files [(coverPage, r)]"
    using g spec(3) by (auto simp: cover_phase_def Let_def result_of_page_def)
  have fail: "failedPages ?st' = failedPages st @ failed_pages [(coverPage, r)]"
    using g spec(3) by (auto simp: cover_phase_def Let_def result_of_page_def)
  have "page_results (st_world ?st') = page_results (st_world st) @ [(coverPage, r)]"
    using q spec(2) by (simp add: quiet_def)
  moreover have "stable (st_world st) (st_world ?st')"
    using stable_trans [OF spec(1)] q by (simp add: quiet_def)
  ultimately show ?thesis
    unfolding handles_def using gen fail spec(3) P
    by (intro conjI exI [of _ "[(coverPage, r)]"]) simp_all
qed

lemma ensure_dir_spec:
  "task_dirs (ensure_dir d s) d \<noteq> None"
  "task_dirs s d' \<noteq> None \<Longrightarrow> task_dirs (ensure_dir d s) d' \<noteq> None"
  "details (ensure_dir d s) = details s" "index_file (ensure_dir d s) = index_file s"
  "getRecord (ensure_dir d s) = getRecord s"
  by (auto simp: ensure_dir_def getRecord_def fun_eq_iff split: option.splits)

lemma start_task_spec:
  assumes "start_task env pages taskId fullOutline userImages userTopic recordId w = (c, w0)"
  shows "page_results w0 = page_results w" and "generator_calls w0 = generator_calls w"
    and "dir_ready w0" and "currentTaskDir w0 = Some (c_taskId c)"
    and "c_total c = length pages" and "c_recordId c = or_null recordId"
    and "getRecord (history w) rid \<noteq> None \<Longrightarrow> getRecord (history w0) rid \<noteq> None"
proof -
  let ?tid = "case or_null taskId of None \<Rightarrow> new_task_id env | Some t \<Rightarrow> t"
  let ?cui = "case userImages of
                None \<Rightarrow> None
              | Some imgs \<Rightarrow> if imgs = [] then None
                             else Some (map (\<lambda>img. compressImage env img 200) imgs)"
  let ?w1 = "w\<lparr>currentTaskDir := Some ?tid, history := ensure_dir ?tid (history w)\<rparr>"
  let ?w2 = "?w1\<lparr>taskStates := (taskStates ?w1)(?tid \<mapsto>
                    \<lparr>ts_pages = pages, ts_generated = (\<lambda>_. None), ts_failed = (\<lambda>_. None),
                     ts_cover_image = None, ts_full_outline = fullOutline,
                     ts_user_images = ?cui, ts_user_topic = userTopic\<rparr>)\<rparr>"
  from assms have c: "c_taskId c = ?tid" "c_total c = length pages"
      "c_recordId c = or_null recordId"
    by (auto simp: start_task_def Let_def)
  have q: "quiet ?w2 w0"
  proof (cases "or_null recordId")
    case None
    with assms have "w0 = ?w2" by (auto simp: start_task_def Let_def)
    then show ?thesis by simp
  next
    case (Some rid)
    with assms obtain u where "w0 = updateHistoryRecord env rid u ?w2"
      by (auto simp: start_task_def Let_def)
    then show ?thesis by (simp add: updateHistoryRecord_quiet)
  qed
  have r2: "dir_ready ?w2" "page_results ?w2 = page_results w"
    "generator_calls ?w2 = generator_calls w" "currentTaskDir ?w2 = Some (c_taskId c)"
    by (simp_all add: dir_ready_def ensure_dir_spec c)
  from q r2 show "page_results w0 = page_results w" by (simp add: quiet_def)
  from q r2 show "generator_calls w0 = generator_calls w" by (simp add: quiet_def)
  from q r2 show "dir_ready w0" using dir_ready_stable by (auto simp: quiet_def)
  from q r2 show "currentTaskDir w0 = Some (c_taskId c)" by (simp add: quiet_def stable_def)
  from c show "c_total c = length pages" "c_recordId c = or_null recordId" by simp_all
  show "getRecord (history w) rid \<noteq> None \<Longrightarrow> getRecord (history w0) rid \<noteq> None"
    using q by (simp add: quiet_def stable_def ensure_dir_spec)
qed

lemma finish_phase_fields [simp]:
  "st_events (finish_phase env c st) = st_events st @ [finish_event c st]"
  "quiet (st_world st) (st_world (finish_phase env c st))"
  by (simp_all add: finish_phase_def Let_def updateHistoryRecord_quiet split: option.splits)

text \<open>The run in one statement: set-up, the attempted pages, the finish.\<close>

lemma generateImages_run:
  assumes "page_rule env P"
  obtains c w0 st2 where
    "start_task env pages taskId fullOutline userImages userTopic recordId w = (c, w0)"
    "handles P (attempted_pages pages)
       \<lparr>st_events = [], generatedImages = [], failedPages = [], coverImageData = None,
        st_world = w0\<rparr> st2"
    "generateImages env pages taskId fullOutline userImages userTopic recordId w
     = (st_events (finish_phase env c st2), st_world (finish_phase env c st2))"
proof -
  obtain c w0 where start:
    "start_task env pages taskId fullOutline userImages userTopic recordId w = (c, w0)"
    by (cases "start_task env pages taskId fullOutline userImages userTopic recordId w")
  obtain coverPage otherPages where part: "partition_pages pages = (coverPage, otherPages)"
    by (cases "partition_pages pages")
  let ?st0 = "\<lparr>st_events = [], generatedImages = [], failedPages = [],
               coverImageData = None, st_world = w0\<rparr>"
  let ?st1 = "case coverPage of None \<Rightarrow> ?st0 | Some page \<Rightarrow> cover_phase env c page ?st0"
  let ?st2 = "content_phase env c otherPages ?st1"
  have r0: "dir_ready (st_world ?st0)"
    using start_task_spec(3) [OF start] by simp
  have h1: "handles P (case coverPage of None \<Rightarrow> [] | Some page \<Rightarrow> [page]) ?st0 ?st1"
    using cover_phase_handles [OF assms r0] by (simp split: option.splits)
  have r1: "dir_ready (st_world ?st1)"
    using handles_dir_ready [OF h1 r0] .
  have h2: "handles P otherPages ?st1 ?st2"
    using content_phase_handles [OF assms r1] by blast
  have att: "attempted_pages pages
             = (case coverPage of None \<Rightarrow> [] | Some page \<Rightarrow> [page]) @ otherPages"
    by (simp add: attempted_pages_def part split: option.splits)
  have "handles P (attempted_pages pages) ?st0 ?st2"
    unfolding att by (rule handles_trans [OF h1 h2])
  moreover have "generateImages env pages taskId fullOutline userImages userTopic recordId w
     = (st_events (finish_phase env c ?st2), st_world (finish_phase env c ?st2))"
    by (simp add: generateImages_def start part Let_def)
  ultimately show ?thesis using that start by blast
qed

lemma page_rule_True: "page_rule env (\<lambda>page r. True)"
  by (simp add: page_rule_def)

subsection \<open>The pages attempted\<close>

lemma partition_loop_spec:
  "partition_loop pages coverPage otherPages =
     ((case filter (\<lambda>p. p_type p = Cover) pages of
         [] \<Rightarrow> coverPage
       | c # cs \<Rightarrow> Some (last (c # cs))),
      otherPages @ filter (\<lambda>p. p_type p \<noteq> Cover) pages)"
  by (induction pages arbitrary: coverPage otherPages) (auto split: list.splits)

lemma attempted_pages_no_cover:
  assumes "filter (\<lambda>p. p_type p = Cover) pages = []"
  shows "attempted_pages pages = pages"
proof -
  from assms have "filter (\<lambda>p. p_type p \<noteq> Cover) pages = pages"
    by (induction pages) (auto split: if_splits)
  with assms show ?thesis
    by (cases pages) (simp_all add: attempted_pages_def partition_pages_def partition_loop_spec)
qed

lemma attempted_pages_cover:
  assumes "filter (\<lambda>p. p_type p = Cover) pages = c # cs"
  shows "attempted_pages pages = last (c # cs) # filter (\<lambda>p. p_type p \<noteq> Cover) pages"
  using assms by (simp add: attempted_pages_def partition_pages_def partition_loop_spec)

lemma length_attempted_pages:
  assumes "length (filter (\<lambda>p. p_type p = Cover) pages) \<le> 1"
  shows "length (attempted_pages pages) = length pages"
proof (cases "filter (\<lambda>p. p_type p = Cover) pages")
  case Nil
  then show ?thesis by (simp add: attempted_pages_no_cover)
next
  case (Cons c cs)
  with assms have one: "length (filter (\<lambda>p. p_type p = Cover) pages) = 1" by simp
  have "length (filter (\<lambda>p. p_type p = Cover) pages)
        + length (filter (\<lambda>p. p_type p \<noteq> Cover) pages) = length pages"
    by (rule sum_length_filter_compl)
  with one show ?thesis by (simp add: attempted_pages_cover [OF Cons])
qed

subsection \<open>The finish event\<close>

lemma generateImages_finish:
  assumes "page_rule env P"
  obtains c st2 rs where
    "fst (generateImages env pages taskId fullOutline userImages userTopic recordId w)
     = st_events st2 @ [finish_event c st2]"
    "new_results w (snd (generateImages env pages taskId fullOutline userImages userTopic
                           recordId w)) = rs"
    "map fst rs = attempted_pages pages"
    "list_all (\<lambda>pr. result_of_page (fst pr) (snd pr) \<and> P (fst pr) (snd pr)) rs"
    "generatedImages st2 = succeeded_files rs" "failedPages st2 = failed_pages rs"
    "c_total c = length pages"
proof -
  obtain c w0 st2 where
    start: "start_task env pages taskId fullOutline userImages userTopic recordId w = (c, w0)"
    and h: "handles P (attempted_pages pages)
       \<lparr>st_events = [], generatedImages = [], failedPages = [], coverImageData = None,
        st_world = w0\<rparr> st2"
    and run: "generateImages env pages taskId fullOutline userImages userTopic recordId w
     = (st_events (finish_phase env c st2), st_world (finish_phase env c st2))"
    using generateImages_run [OF assms] by blast
  from h obtain rs where rs: "page_results (st_world st2) = page_results w0 @ rs"
    "map fst rs = attempted_pages pages"
    "list_all (\<lambda>pr. result_of_page (fst pr) (snd pr) \<and> P (fst pr) (snd pr)) rs"
    "generatedImages st2 = succeeded_files rs" "failedPages st2 = failed_pages rs"
    by (auto simp: handles_def)
  have "page_results (st_world (finish_phase env c st2)) = page_results w @ rs"
    using finish_phase_fields(2) [of st2 env c] rs(1) start_task_spec(1) [OF start]
    by (simp add: quiet_def)
  then have "new_results w (snd (generateImages env pages taskId fullOutline userImages
                                   userTopic recordId w)) = rs"
    by (simp add: run new_results_def)
  moreover have "fst (generateImages env pages taskId fullOutline userImages userTopic
                        recordId w) = st_events st2 @ [finish_event c st2]"
    by (simp add: run)
  ultimately show ?thesis
    using that rs(2-5) start_task_spec(5) [OF start] by blast
qed

lemma finish_event_fields [simp]:
  "e_event (finish_event c st) = EvFinish"
  "e_total (finish_event c st) = Some (c_total c)"
  "e_completed (finish_event c st) = Some (length (generatedImages st))"
  "e_failed (finish_event c st) = Some (length (failedPages st))"
  "e_failed_indices (finish_event c st) = Some (map p_index (failedPages st))"
  "e_success (finish_event c st) = Some (failedPages st = [])"
  "e_phase (finish_event c st) = None"
  by (simp_all add: finish_event_def event_of_def)

lemma failed_pages_Nil_iff: "failed_pages rs = [] \<longleftrightarrow> list_all (\<lambda>pr. g_success (snd pr)) rs"
  by (induction rs) (simp_all add: failed_pages_def)

text \<open>
  C5: the finish event is the last event of the run. The pages attempted during the run
  are logged with their results, and the event reports: as \<open>total\<close> the number of pages
  given, as \<open>completed\<close> the number of results that succeeded, as \<open>failed\<close> the number that
  failed, as \<open>failed_indices\<close> the indices of the failed pages in the order of attempt, and
  \<open>success\<close> exactly when none failed. In particular, when five pages with the indices 0 to
  4 were attempted and those with the indices 0, 1, 2 succeeded, the event has
  \<open>completed = 3\<close>, \<open>failed = 2\<close> and \<open>failed_indices = [3, 4]\<close>.
\<close>

theorem finish_event_reports_results:
  "let run = generateImages env pages taskId fullOutline userImages userTopic recordId w;
       finish = last (fst run);
       rs = new_results w (snd run)
   in fst run \<noteq> [] \<and> e_event finish = EvFinish \<and>
      map fst rs = attempted_pages pages \<and>
      e_total finish = Some (length pages) \<and>
      e_completed finish = Some (length (filter (\<lambda>pr. g_success (snd pr)) rs)) \<and>
      e_failed finish = Some (length (filter (\<lambda>pr. \<not> g_success (snd pr)) rs)) \<and>
      e_failed_indices finish
        = Some (map (\<lambda>pr. p_index (fst pr)) (filter (\<lambda>pr. \<not> g_success (snd pr)) rs)) \<and>
      e_success finish = Some (list_all (\<lambda>pr. g_success (snd pr)) rs) \<and>
      (length pages = 5 \<and>
       map (\<lambda>pr. (p_index (fst pr), g_success (snd pr))) rs
         = [(0, True), (1, True), (2, True), (3, False), (4, False)]
       \<longrightarrow> e_completed finish = Some 3 \<and> e_failed finish = Some 2 \<and>
           e_failed_indices finish = Some [3, 4] \<and> e_success finish = Some False)"
proof -
  let ?run = "generateImages env pages taskId fullOutline userImages userTopic recordId w"
  obtain c st2 rs where
    evs: "fst ?run = st_events st2 @ [finish_event c st2]"
    and rs: "new_results w (snd ?run) = rs" "map fst rs = attempted_pages pages"
    and "list_all (\<lambda>pr. result_of_page (fst pr) (snd pr) \<and> True) rs"
    and acc: "generatedImages st2 = succeeded_files rs" "failedPages st2 = failed_pages rs"
    and total: "c_total c = length pages"
    by (rule generateImages_finish [OF page_rule_True])
  let ?fin = "last (fst ?run)"
  have fin: "?fin = finish_event c st2" "fst ?run \<noteq> []"
    by (simp_all add: evs)
  have completed: "e_completed ?fin = Some (length (filter (\<lambda>pr. g_success (snd pr)) rs))"
    by (simp add: fin acc succeeded_files_def)
  have failed: "e_failed ?fin = Some (length (filter (\<lambda>pr. \<not> g_success (snd pr)) rs))"
    by (simp add: fin acc failed_pages_def)
  have indices: "e_failed_indices ?fin
        = Some (map (\<lambda>pr. p_index (fst pr)) (filter (\<lambda>pr. \<not> g_success (snd pr)) rs))"
    by (simp add: fin acc failed_pages_def)
  have success: "e_success ?fin = Some (list_all (\<lambda>pr. g_success (snd pr)) rs)"
    by (simp add: fin acc failed_pages_Nil_iff)
  have scenario: "e_completed ?fin = Some 3 \<and> e_failed ?fin = Some 2 \<and>
           e_failed_indices ?fin = Some [3, 4] \<and> e_success ?fin = Some False"
    if five: "map (\<lambda>pr. (p_index (fst pr), g_success (snd pr))) rs
         = [(0, True), (1, True), (2, True), (3, False), (4, False)]"
  proof -
    have f: "filter (\<lambda>pr. P (snd pr)) (map (\<lambda>pr. (p_index (fst pr), g_success (snd pr))) rs)
             = map (\<lambda>pr. (p_index (fst pr), g_success (snd pr)))
                 (filter (\<lambda>pr. P (g_success (snd pr))) rs)" for P
      by (simp add: filter_map o_def)
    have m: "map fst (map (\<lambda>pr. (p_index (fst pr), g_success (snd pr))) xs)
             = map (\<lambda>pr. p_index (fst pr)) xs" for xs :: "(page_data \<times> gen_result) list"
      by simp
    have "length (filter (\<lambda>pr. g_success (snd pr)) rs) = 3"
      using arg_cong [OF f [of "\<lambda>b. b"], of length] by (simp add: five)
    moreover have ix: "map (\<lambda>pr. p_index (fst pr)) (filter (\<lambda>pr. \<not> g_success (snd pr)) rs) = [3, 4]"
      using arg_cong [OF f [of "\<lambda>b. \<not> b"], of "map fst"] by (simp add: five m del: map_map)
    moreover have len2: "length (filter (\<lambda>pr. \<not> g_success (snd pr)) rs) = 2"
    proof -
      from ix have "length (map (\<lambda>pr. p_index (fst pr))
                   (filter (\<lambda>pr. \<not> g_success (snd pr)) rs)) = length [3, 4 :: nat]"
        by (rule arg_cong)
      then show ?thesis by simp
    qed
    moreover have "\<not> list_all (\<lambda>pr. g_success (snd pr)) rs"
    proof
      assume "list_all (\<lambda>pr. g_success (snd pr)) rs"
      then have "filter (\<lambda>pr. \<not> g_success (snd pr)) rs = []"
        by (simp add: list_all_iff filter_empty_conv)
      with len2 show False by simp
    qed
    ultimately show ?thesis
      using completed failed indices success by simp
  qed
  show ?thesis
    unfolding Let_def rs(1)
    using fin completed failed indices success scenario rs(2) total by simp
qed

subsection \<open>Generators whose answer depends on the page only\<close>

lemma attempt_loop_success:
  assumes "\<And>n. (\<exists>img. generator env n request = Inr img) = b"
  shows "dir_ready w \<Longrightarrow> (b \<longrightarrow> attempts \<noteq> []) \<Longrightarrow>
         g_success (fst (attempt_loop env page request attempts w)) = b"
proof (induction attempts arbitrary: w)
  case Nil
  then show ?case by simp
next
  case (Cons attempt rest)
  let ?w1 = "w\<lparr>generator_calls := generator_calls w @ [request]\<rparr>"
  have ready: "dir_ready ?w1"
    using Cons.prems(1) by (auto simp: dir_ready_def split: option.splits)
  show ?case
  proof (cases "generator env (length (generator_calls w)) request")
    case (Inr img)
    with assms have b by blast
    obtain w2 where "saveImage env img (page_filename (p_index page)) ?w1 = Inr w2"
      using saveImage_ready [OF ready] by blast
    with Inr \<open>b\<close> show ?thesis by (simp add: Let_def)
  next
    case (Inl message)
    with assms have nb: "\<not> b" by (metis sum.distinct(1))
    show ?thesis
    proof (cases "attempt < AUTO_RETRY_COUNT - 1")
      case True
      with Inl Cons.IH [OF ready] nb show ?thesis by (simp add: Let_def)
    next
      case False
      with Inl nb show ?thesis by (simp add: Let_def)
    qed
  qed
qed

lemma page_rule_by_page:
  assumes "\<And>n page fullOutline userTopic referenceImage userImages.
             (\<exists>img. generator env n
                (generator_kwargs env (render_prompt env page fullOutline userTopic)
                   referenceImage userImages) = Inr img) = ok page"
  shows "page_rule env (\<lambda>page r. g_success r = ok page)"
  unfolding page_rule_def
proof (intro allI impI)
  fix page referenceImage fullOutline userImages userTopic w
  assume ready: "dir_ready w"
  let ?topic = "if truthy userTopic then userTopic else [26410, 25552, 20379]"
  let ?req = "generator_kwargs env (render_prompt env page fullOutline ?topic)
                referenceImage userImages"
  have "g_success (fst (attempt_loop env page ?req [0..<AUTO_RETRY_COUNT] w)) = ok page"
    by (rule attempt_loop_success [OF assms ready]) (simp add: AUTO_RETRY_COUNT_def)
  then show "g_success (fst (generateSingleImage env page referenceImage fullOutline
                               userImages userTopic w)) = ok page"
    by (simp add: generateSingleImage_def Let_def case_prod_beta)
qed

lemma results_by_page:
  assumes "list_all (\<lambda>pr. result_of_page (fst pr) (snd pr) \<and> g_success (snd pr) = ok (fst pr)) rs"
  shows "map (\<lambda>pr. (p_index (fst pr), g_success (snd pr))) rs
         = map (\<lambda>p. (p_index p, ok p)) (map fst rs)"
  using assms by (induction rs) simp_all

lemma example_page_rule:
  "page_rule (example_env concurrent ptype)
     (\<lambda>page r. g_success r = (p_content page \<in> {asc ''p0'', asc ''p1'', asc ''p2''}))"
  by (rule page_rule_by_page)
     (simp add: example_env_def generator_kwargs_def example_prompt_ok_def Let_def)

lemma attempted_example_pages: "attempted_pages example_pages = example_pages"
  by (simp add: attempted_pages_def partition_pages_def example_pages_def)

lemma example_results:
  "map (\<lambda>pr. (p_index (fst pr), g_success (snd pr)))
     (new_results w (snd (generateImages (example_env concurrent ptype) example_pages taskId
                            fullOutline userImages userTopic recordId w)))
   = [(0, True), (1, True), (2, True), (3, False), (4, False)]"
proof -
  obtain c st2 rs where
    "fst (generateImages (example_env concurrent ptype) example_pages taskId
            fullOutline userImages userTopic recordId w)
     = st_events st2 @ [finish_event c st2]"
    and rs: "new_results w (snd (generateImages (example_env concurrent ptype) example_pages
                            taskId fullOutline userImages userTopic recordId w)) = rs"
      "map fst rs = attempted_pages example_pages"
      "list_all (\<lambda>pr. result_of_page (fst pr) (snd pr) \<and>
         g_success (snd pr) = (p_content (fst pr) \<in> {asc ''p0'', asc ''p1'', asc ''p2''})) rs"
    and "generatedImages st2 = succeeded_files rs" "failedPages st2 = failed_pages rs"
      "c_total c = length example_pages"
    by (rule generateImages_finish [OF example_page_rule])
  show ?thesis
    unfolding rs(1) results_by_page [OF rs(3)] rs(2) attempted_example_pages
    by (simp add: example_pages_def)
qed

theorem finish_event_reports_results_witness:
  "e_completed (last (fst (generateImages (example_env False (asc ''google_genai''))
      example_pages (Some (asc ''task_1'')) [] None [] (Some (asc ''r1'')) example_world)))
     = Some 3 \<and>
   e_failed (last (fst (generateImages (example_env False (asc ''google_genai''))
      example_pages (Some (asc ''task_1'')) [] None [] (Some (asc ''r1'')) example_world)))
     = Some 2 \<and>
   e_failed_indices (last (fst (generateImages (example_env False (asc ''google_genai''))
      example_pages (Some (asc ''task_1'')) [] None [] (Some (asc ''r1'')) example_world)))
     = Some [3, 4] \<and>
   e_success (last (fst (generateImages (example_env False (asc ''google_genai''))
      example_pages (Some (asc ''task_1'')) [] None [] (Some (asc ''r1'')) example_world)))
     = Some False \<and>
   e_completed (last (fst (generateImages (example_env True (asc ''image_api''))
      example_pages (Some (asc ''task_1'')) [] None [] (Some (asc ''r1'')) example_world)))
     = Some 3 \<and>
   e_failed (last (fst (generateImages (example_env True (asc ''image_api''))
      example_pages (Some (asc ''task_1'')) [] None [] (Some (asc ''r1'')) example_world)))
     = Some 2 \<and>
   e_failed_indices (last (fst (generateImages (example_env True (asc ''image_api''))
      example_pages (Some (asc ''task_1'')) [] None [] (Some (asc ''r1'')) example_world)))
     = Some [3, 4] \<and>
   e_success (last (fst (generateImages (example_env True (asc ''image_api''))
      example_pages (Some (asc ''task_1'')) [] None [] (Some (asc ''r1'')) example_world)))
     = Some False"
proof -
  have five: "length example_pages = 5" by (simp add: example_pages_def)
  note seq = finish_event_reports_results [of "example_env False (asc ''google_genai'')"
      example_pages "Some (asc ''task_1'')" "[]" None "[]" "Some (asc ''r1'')" example_world,
      unfolded Let_def]
  note con = finish_event_reports_results [of "example_env True (asc ''image_api'')"
      example_pages "Some (asc ''task_1'')" "[]" None "[]" "Some (asc ''r1'')" example_world,
      unfolded Let_def]
  note rs_seq = example_results [of example_world False "asc ''google_genai''"
      "Some (asc ''task_1'')" "[]" None "[]" "Some (asc ''r1'')"]
  note rs_con = example_results [of example_world True "asc ''image_api''"
      "Some (asc ''task_1'')" "[]" None "[]" "Some (asc ''r1'')"]
  from seq five rs_seq have
    "e_completed (last (fst (generateImages (example_env False (asc ''google_genai''))
      example_pages (Some (asc ''task_1'')) [] None [] (Some (asc ''r1'')) example_world)))
     = Some 3 \<and>
   e_failed (last (fst (generateImages (example_env False (asc ''google_genai''))
      example_pages (Some (asc ''task_1'')) [] None [] (Some (asc ''r1'')) example_world)))
     = Some 2 \<and>
   e_failed_indices (last (fst (generateImages (example_env False (asc ''google_genai''))
      example_pages (Some (asc ''task_1'')) [] None [] (Some (asc ''r1'')) example_world)))
     = Some [3, 4] \<and>
   e_success (last (fst (generateImages (example_env False (asc ''google_genai''))
      example_pages (Some (asc ''task_1'')) [] None [] (Some (asc ''r1'')) example_world)))
     = Some False"
    by blast
  moreover from con five rs_con have
    "e_completed (last (fst (generateImages (example_env True (asc ''image_api''))
      example_pages (Some (asc ''task_1'')) [] None [] (Some (asc ''r1'')) example_world)))
     = Some 3 \<and>
   e_failed (last (fst (generateImages (example_env True (asc ''image_api''))
      example_pages (Some (asc ''task_1'')) [] None [] (Some (asc ''r1'')) example_world)))
     = Some 2 \<and>
   e_failed_indices (last (fst (generateImages (example_env True (asc ''image_api''))
      example_pages (Some (asc ''task_1'')) [] None [] (Some (asc ''r1'')) example_world)))
     = Some [3, 4] \<and>
   e_success (last (fst (generateImages (example_env True (asc ''image_api''))
      example_pages (Some (asc ''task_1'')) [] None [] (Some (asc ''r1'')) example_world)))
     = Some False"
    by blast
  ultimately show ?thesis by blast
qed

subsection \<open>The status a task writes\<close>

lemma final_status_iff:
  "final_status failed generated = asc ''completed'' \<longleftrightarrow> failed = []"
  "final_status failed generated = asc ''partial'' \<longleftrightarrow> failed \<noteq> [] \<and> generated \<noteq> []"
  "final_status failed generated = asc ''draft'' \<longleftrightarrow> failed \<noteq> [] \<and> generated = []"
  by (auto simp: final_status_def)

text \<open>
  When a record is given and exists, the last write of the run leaves it with the status
  computed from the results and with the files of the successful pages as its images.
\<close>

lemma generateImages_final_record:
  assumes "page_rule env P"
    and "or_null recordId = Some rid" and "getRecord (history w) rid \<noteq> None"
  shows "\<exists>r rs. getRecord (history (snd (generateImages env pages taskId fullOutline
                     userImages userTopic recordId w))) rid = Some r \<and>
           map fst rs = attempted_pages pages \<and>
           list_all (\<lambda>pr. result_of_page (fst pr) (snd pr) \<and> P (fst pr) (snd pr)) rs \<and>
           r_status r = final_status (failed_pages rs) (succeeded_files rs) \<and>
           i_generated (r_images r) = map Some (succeeded_files rs)"
proof -
  obtain c w0 st2 where
    start: "start_task env pages taskId fullOutline userImages userTopic recordId w = (c, w0)"
    and h: "handles P (attempted_pages pages)
       \<lparr>st_events = [], generatedImages = [], failedPages = [], coverImageData = None,
        st_world = w0\<rparr> st2"
    and run: "generateImages env pages taskId fullOutline userImages userTopic recordId w
     = (st_events (finish_phase env c st2), st_world (finish_phase env c st2))"
    by (rule generateImages_run [OF assms(1)])
  from h obtain rs where rs: "map fst rs = attempted_pages pages"
    "list_all (\<lambda>pr. result_of_page (fst pr) (snd pr) \<and> P (fst pr) (snd pr)) rs"
    "generatedImages st2 = succeeded_files rs" "failedPages st2 = failed_pages rs"
    and st: "stable w0 (st_world st2)"
    by (auto simp: handles_def)
  have rid: "c_recordId c = Some rid"
    using start_task_spec(6) [OF start] assms(2) by simp
  have "getRecord (history w0) rid \<noteq> None"
    using start_task_spec(7) [OF start assms(3)] .
  with st obtain r2 where r2: "getRecord (history (st_world st2)) rid = Some r2"
    by (auto simp: stable_def)
  let ?u = "\<lparr>u_outline = None,
             u_images = Some \<lparr>i_task_id = Some (c_taskId c),
                               i_generated = map Some (generatedImages st2)\<rparr>,
             u_status = Some (final_status (failedPages st2) (generatedImages st2)),
             u_thumbnail = None\<rparr>"
  have "getRecord (history (st_world (finish_phase env c st2))) rid
        = Some (update_detail (clock env (ticks (st_world st2))) ?u r2)"
    using updateRecord_found(2) [OF r2]
    by (simp add: finish_phase_def Let_def rid updateHistoryRecord_def)
  then show ?thesis
    using rs
    by (intro exI [of _ "update_detail (clock env (ticks (st_world st2))) ?u r2"] exI [of _ rs])
       (simp add: run update_detail_fields)
qed

lemma example_scan:
  "scanAndSyncTaskImages parseInt_digits (asc ''2024-01-03T00:00:00.000Z'') (asc ''task_1'')
     example_store
   = (ScanSynced (asc ''r1'') (asc ''task_1'') [asc ''0.png'', asc ''1.png'', asc ''2.png'']
        (asc ''completed''),
      snd (updateRecord (asc ''2024-01-03T00:00:00.000Z'') (asc ''r1'')
             \<lparr>u_outline = None,
              u_images = Some \<lparr>i_task_id = Some (asc ''task_1''),
                                i_generated = [Some (asc ''0.png''), Some (asc ''1.png''),
                                               Some (asc ''2.png'')]\<rparr>,
              u_status = Some (asc ''completed''), u_thumbnail = Some (asc ''0.png'')\<rparr>
             example_store))"
proof -
  have dir: "task_dirs example_store (asc ''task_1'') = Some example_dir"
    by (simp add: example_store_def createRecord_def Let_def empty_store_def)
  have names: "filter is_image_file (map fst example_dir)
               = [asc ''0.png'', asc ''1.png'', asc ''2.png'']"
    by (simp add: example_dir_def is_image_file_def endsWith_def asc_def)
  have sorted: "sort_files parseInt_digits [asc ''0.png'', asc ''1.png'', asc ''2.png'']
                = [asc ''0.png'', asc ''1.png'', asc ''2.png'']"
    by (simp add: sort_files_def getIndex_compare_def parseInt_digits_def asc_def)
  have idx: "loadIndex example_store
             = [\<lparr>x_id = asc ''r1'', x_title = asc ''topic'',
                 x_created_at = asc ''2024-01-01T00:00:00.000Z'',
                 x_updated_at = asc ''2024-01-01T00:00:00.000Z'',
                 x_status = asc ''draft'', x_thumbnail = None,
                 x_page_count = 2, x_task_id = Some (asc ''task_1'')\<rparr>]"
    by (simp add: example_store_def createRecord_def Let_def empty_store_def loadIndex_def
        saveIndex_def pages_length_def example_outline_def or_null_def)
  have found: "find_task_record example_store (asc ''task_1'') (loadIndex example_store)
               = Some (asc ''r1'')"
    by (simp add: idx example_store_record)
  have expected: "pages_length example_outline = 2"
    by (simp add: pages_length_def example_outline_def)
  show ?thesis
    by (simp add: scanAndSyncTaskImages_def dir names sorted found example_store_record
        Let_def expected scan_status_def)
qed

text \<open>
  C1, as stated. A scan that finds three images for a record with a two-page outline
  writes \<open>completed\<close>, though 3 is not 2. A task over no pages writes \<open>completed\<close> with no
  image generated, where the count 0 should give \<open>draft\<close>. A task over two pages both typed
  \<open>cover\<close> attempts the second only and writes \<open>completed\<close> with one image of two.
\<close>

theorem status_counterexample:
  "(\<exists>r. getRecord (snd (scanAndSyncTaskImages parseInt_digits (asc ''2024-01-03T00:00:00.000Z'')
                          (asc ''task_1'') example_store)) (asc ''r1'') = Some r \<and>
        r_status r = asc ''completed'' \<and> length (i_generated (r_images r)) = 3 \<and>
        pages_length (r_outline r) = 2) \<and>
   (\<exists>r. getRecord (history (snd (generateImages (example_env False (asc ''google_genai'')) []
            (Some (asc ''task_1'')) [] None [] (Some (asc ''r1'')) example_world)))
          (asc ''r1'') = Some r \<and>
        r_status r = asc ''completed'' \<and> length (i_generated (r_images r)) = 0) \<and>
   (\<exists>r. getRecord (history (snd (generateImages (example_env False (asc ''google_genai''))
            [\<lparr>p_index = 0, p_type = Cover, p_content = asc ''p0''\<rparr>,
             \<lparr>p_index = 1, p_type = Cover, p_content = asc ''p1''\<rparr>]
            (Some (asc ''task_1'')) [] None [] (Some (asc ''r1'')) example_world)))
          (asc ''r1'') = Some r \<and>
        r_status r = asc ''completed'' \<and> length (i_generated (r_images r)) = 1)"
proof -
  have rec: "getRecord (history example_world) (asc ''r1'') \<noteq> None"
    by (simp add: example_world_def example_store_record)
  have rid: "or_null (Some (asc ''r1'')) = Some (asc ''r1'')"
    by (simp add: or_null_def)
  have scan: "\<exists>r. getRecord (snd (scanAndSyncTaskImages parseInt_digits
                      (asc ''2024-01-03T00:00:00.000Z'') (asc ''task_1'') example_store))
                    (asc ''r1'') = Some r \<and>
        r_status r = asc ''completed'' \<and> length (i_generated (r_images r)) = 3 \<and>
        pages_length (r_outline r) = 2"
    by (simp add: example_scan updateRecord_found(2) [OF example_store_record]
        update_detail_fields pages_length_def example_outline_def)
  have empty: "\<exists>r. getRecord (history (snd (generateImages
            (example_env False (asc ''google_genai'')) []
            (Some (asc ''task_1'')) [] None [] (Some (asc ''r1'')) example_world)))
          (asc ''r1'') = Some r \<and>
        r_status r = asc ''completed'' \<and> length (i_generated (r_images r)) = 0"
    using generateImages_final_record [OF page_rule_True rid rec, where pages = "[]"
        and env = "example_env False (asc ''google_genai'')" and taskId = "Some (asc ''task_1'')"
        and fullOutline = "[]" and userImages = None and userTopic = "[]"]
    by (auto simp: attempted_pages_def partition_pages_def final_status_def)
  have att: "attempted_pages [\<lparr>p_index = 0, p_type = Cover, p_content = asc ''p0''\<rparr>,
                              \<lparr>p_index = 1, p_type = Cover, p_content = asc ''p1''\<rparr>]
             = [\<lparr>p_index = 1, p_type = Cover, p_content = asc ''p1''\<rparr>]"
    by (simp add: attempted_pages_def partition_pages_def)
  have two: "\<exists>r. getRecord (history (snd (generateImages
            (example_env False (asc ''google_genai''))
            [\<lparr>p_index = 0, p_type = Cover, p_content = asc ''p0''\<rparr>,
             \<lparr>p_index = 1, p_type = Cover, p_content = asc ''p1''\<rparr>]
            (Some (asc ''task_1'')) [] None [] (Some (asc ''r1'')) example_world)))
          (asc ''r1'') = Some r \<and>
        r_status r = asc ''completed'' \<and> length (i_generated (r_images r)) = 1"
  proof -
    have "\<exists>r rs. getRecord (history (snd (generateImages
            (example_env False (asc ''google_genai''))
            [\<lparr>p_index = 0, p_type = Cover, p_content = asc ''p0''\<rparr>,
             \<lparr>p_index = 1, p_type = Cover, p_content = asc ''p1''\<rparr>]
            (Some (asc ''task_1'')) [] None [] (Some (asc ''r1'')) example_world)))
          (asc ''r1'') = Some r \<and>
        map fst rs = [\<lparr>p_index = 1, p_type = Cover, p_content = asc ''p1''\<rparr>] \<and>
        list_all (\<lambda>pr. result_of_page (fst pr) (snd pr) \<and>
           g_success (snd pr) = (p_content (fst pr) \<in> {asc ''p0'', asc ''p1'', asc ''p2''})) rs \<and>
        r_status r = final_status (failed_pages rs) (succeeded_files rs) \<and>
        i_generated (r_images r) = map Some (succeeded_files rs)"
      using generateImages_final_record [OF example_page_rule rid rec,
        where pages = "[\<lparr>p_index = 0, p_type = Cover, p_content = asc ''p0''\<rparr>,
                        \<lparr>p_index = 1, p_type = Cover, p_content = asc ''p1''\<rparr>]"
        and concurrent1 = False and ptype1 = "asc ''google_genai''"
        and taskId = "Some (asc ''task_1'')"
        and fullOutline = "[]" and userImages = None and userTopic = "[]"]
      unfolding att .
    then obtain r rs where all: "getRecord (history (snd (generateImages
            (example_env False (asc ''google_genai''))
            [\<lparr>p_index = 0, p_type = Cover, p_content = asc ''p0''\<rparr>,
             \<lparr>p_index = 1, p_type = Cover, p_content = asc ''p1''\<rparr>]
            (Some (asc ''task_1'')) [] None [] (Some (asc ''r1'')) example_world)))
          (asc ''r1'') = Some r \<and>
        map fst rs = [\<lparr>p_index = 1, p_type = Cover, p_content = asc ''p1''\<rparr>] \<and>
        list_all (\<lambda>pr. result_of_page (fst pr) (snd pr) \<and>
           g_success (snd pr) = (p_content (fst pr) \<in> {asc ''p0'', asc ''p1'', asc ''p2''})) rs \<and>
        r_status r = final_status (failed_pages rs) (succeeded_files rs) \<and>
        i_generated (r_images r) = map Some (succeeded_files rs)"
      by (elim exE)
    note r = all [THEN conjunct1]
    note rs = all [THEN conjunct2, THEN conjunct1]
      all [THEN conjunct2, THEN conjunct2, THEN conjunct1]
    note st = all [THEN conjunct2, THEN conjunct2, THEN conjunct2, THEN conjunct1]
      all [THEN conjunct2, THEN conjunct2, THEN conjunct2, THEN conjunct2]
    from rs(1) obtain res where res: "rs = [(\<lparr>p_index = 1, p_type = Cover, p_content = asc ''p1''\<rparr>, res)]"
      by (cases rs) auto
    with rs(2) have "g_success res" by simp
    with res st have "r_status r = asc ''completed''" "length (i_generated (r_images r)) = 1"
      by (simp_all add: final_status_def)
    with r show ?thesis by blast
  qed
  from scan empty two show ?thesis by blast
qed

text \<open>
  C1, amended. A task over pages of which at most one is typed \<open>cover\<close>, run for an
  existing record, leaves the record with the status \<open>completed\<close> iff the number of
  generated images equals the number of pages, \<open>partial\<close> iff it lies strictly between 0
  and the number of pages, and \<open>draft\<close> iff it is 0 and there are pages. A scan that repairs
  a record leaves it with \<open>draft\<close> iff no image was found, \<open>completed\<close> iff at least one
  was found and at least as many as the outline has pages, and \<open>partial\<close> iff some but
  fewer than that.
\<close>

theorem status_reflects_counts:
  "(length (filter (\<lambda>p. p_type p = Cover) pages) \<le> 1 \<and> or_null recordId = Some rid \<and>
    getRecord (history w) rid \<noteq> None \<longrightarrow>
    (\<exists>r. getRecord (history (snd (generateImages env pages taskId fullOutline userImages
                                    userTopic recordId w))) rid = Some r \<and>
       (r_status r = asc ''completed'' \<longleftrightarrow>
          length (i_generated (r_images r)) = length pages) \<and>
       (r_status r = asc ''partial'' \<longleftrightarrow>
          0 < length (i_generated (r_images r)) \<and>
          length (i_generated (r_images r)) < length pages) \<and>
       (r_status r = asc ''draft'' \<longleftrightarrow>
          length (i_generated (r_images r)) = 0 \<and> 0 < length pages))) \<and>
   (scanAndSyncTaskImages parseInt now scanned s = (ScanSynced found t files st, s') \<longrightarrow>
    (\<exists>r. getRecord s' found = Some r \<and> r_status r = st \<and>
       i_generated (r_images r) = map Some files \<and>
       (r_status r = asc ''draft'' \<longleftrightarrow> length (i_generated (r_images r)) = 0) \<and>
       (r_status r = asc ''completed'' \<longleftrightarrow>
          0 < length (i_generated (r_images r)) \<and>
          pages_length (r_outline r) \<le> length (i_generated (r_images r))) \<and>
       (r_status r = asc ''partial'' \<longleftrightarrow>
          0 < length (i_generated (r_images r)) \<and>
          length (i_generated (r_images r)) < pages_length (r_outline r))))"
proof (intro conjI impI)
  assume a: "length (filter (\<lambda>p. p_type p = Cover) pages) \<le> 1 \<and> or_null recordId = Some rid \<and>
    getRecord (history w) rid \<noteq> None"
  then obtain r rs where r: "getRecord (history (snd (generateImages env pages taskId
      fullOutline userImages userTopic recordId w))) rid = Some r"
    and rs: "map fst rs = attempted_pages pages"
    and st: "r_status r = final_status (failed_pages rs) (succeeded_files rs)"
      "i_generated (r_images r) = map Some (succeeded_files rs)"
    using generateImages_final_record [OF page_rule_True, of recordId rid w] by blast
  have "length rs = length pages"
    using arg_cong [OF rs, of length] a length_attempted_pages by simp
  then have sum: "length (succeeded_files rs) + length (failed_pages rs) = length pages"
    using length_succeeded_failed [of rs] by simp
  have "(r_status r = asc ''completed'' \<longleftrightarrow>
          length (i_generated (r_images r)) = length pages) \<and>
       (r_status r = asc ''partial'' \<longleftrightarrow>
          0 < length (i_generated (r_images r)) \<and>
          length (i_generated (r_images r)) < length pages) \<and>
       (r_status r = asc ''draft'' \<longleftrightarrow>
          length (i_generated (r_images r)) = 0 \<and> 0 < length pages)"
    using sum by (cases "failed_pages rs"; cases "succeeded_files rs")
                 (auto simp: st final_status_iff)
  with r show "\<exists>r. getRecord (history (snd (generateImages env pages taskId fullOutline
                     userImages userTopic recordId w))) rid = Some r \<and>
       (r_status r = asc ''completed'' \<longleftrightarrow>
          length (i_generated (r_images r)) = length pages) \<and>
       (r_status r = asc ''partial'' \<longleftrightarrow>
          0 < length (i_generated (r_images r)) \<and>
          length (i_generated (r_images r)) < length pages) \<and>
       (r_status r = asc ''draft'' \<longleftrightarrow>
          length (i_generated (r_images r)) = 0 \<and> 0 < length pages)"
    by blast
next
  assume "scanAndSyncTaskImages parseInt now scanned s = (ScanSynced found t files st, s')"
  from scanAndSync_synced [OF this] obtain r where
    "getRecord s' found = Some r" "r_status r = st"
    "i_generated (r_images r) = map Some files"
    "st = scan_status (length files) (pages_length (r_outline r))"
    by blast
  then show "\<exists>r. getRecord s' found = Some r \<and> r_status r = st \<and>
       i_generated (r_images r) = map Some files \<and>
       (r_status r = asc ''draft'' \<longleftrightarrow> length (i_generated (r_images r)) = 0) \<and>
       (r_status r = asc ''completed'' \<longleftrightarrow>
          0 < length (i_generated (r_images r)) \<and>
          pages_length (r_outline r) \<le> length (i_generated (r_images r))) \<and>
       (r_status r = asc ''partial'' \<longleftrightarrow>
          0 < length (i_generated (r_images r)) \<and>
          length (i_generated (r_images r)) < pages_length (r_outline r))"
    by (auto simp: scan_status_iff)
qed

lemma scenario_counts:
  assumes "map (\<lambda>pr. (p_index (fst pr), g_success (snd pr))) rs
           = [(0, True), (1, True), (2, True), (3, False), (4, False)]"
  shows "length (succeeded_files rs) = 3" and "length (failed_pages rs) = 2"
proof -
  have f: "filter (\<lambda>pr. P (snd pr)) (map (\<lambda>pr. (p_index (fst pr), g_success (snd pr))) rs)
           = map (\<lambda>pr. (p_index (fst pr), g_success (snd pr)))
               (filter (\<lambda>pr. P (g_success (snd pr))) rs)" for P
    by (simp add: filter_map o_def)
  show "length (succeeded_files rs) = 3"
    using arg_cong [OF f [of "\<lambda>b. b"], of length]
    by (simp add: assms succeeded_files_def)
  show "length (failed_pages rs) = 2"
    using arg_cong [OF f [of "\<lambda>b. \<not> b"], of length]
    by (simp add: assms failed_pages_def)
qed

theorem status_reflects_counts_witness:
  "(\<exists>r. getRecord (history (snd (generateImages (example_env False (asc ''google_genai''))
            example_pages (Some (asc ''task_1'')) [] None [] (Some (asc ''r1''))
            example_world))) (asc ''r1'') = Some r \<and>
        r_status r = asc ''partial'' \<and> length (i_generated (r_images r)) = 3 \<and>
        length example_pages = 5) \<and>
   (\<exists>r. getRecord (snd (scanAndSyncTaskImages parseInt_digits (asc ''2024-01-03T00:00:00.000Z'')
                          (asc ''task_1'') example_store)) (asc ''r1'') = Some r \<and>
        r_status r = asc ''completed'' \<and> length (i_generated (r_images r)) = 3 \<and>
        pages_length (r_outline r) = 2)"
proof -
  let ?w' = "snd (generateImages (example_env False (asc ''google_genai''))
            example_pages (Some (asc ''task_1'')) [] None [] (Some (asc ''r1'')) example_world)"
  have h: "length (filter (\<lambda>p. p_type p = Cover) example_pages) \<le> 1 \<and>
           or_null (Some (asc ''r1'')) = Some (asc ''r1'') \<and>
           getRecord (history example_world) (asc ''r1'') \<noteq> None"
    by (simp add: example_pages_def or_null_def example_world_def example_store_record)
  note inst = status_reflects_counts [where pages = example_pages
      and recordId = "Some (asc ''r1'')" and rid = "asc ''r1''" and w = example_world
      and env = "example_env False (asc ''google_genai'')"
      and taskId = "Some (asc ''task_1'')" and fullOutline = "[]" and userImages = None
      and userTopic = "[]" and parseInt = parseInt_digits
      and now = "asc ''2024-01-03T00:00:00.000Z''" and scanned = "asc ''task_1''"
      and s = example_store and found = "asc ''r1''" and t = "asc ''task_1''"
      and files = "[asc ''0.png'', asc ''1.png'', asc ''2.png'']"
      and st = "asc ''completed''"
      and s' = "snd (scanAndSyncTaskImages parseInt_digits (asc ''2024-01-03T00:00:00.000Z'')
              (asc ''task_1'') example_store)"]
  from inst [THEN conjunct1, rule_format, OF h] obtain r where
    r: "getRecord (history ?w') (asc ''r1'') = Some r"
    and partial: "r_status r = asc ''partial'' \<longleftrightarrow>
          0 < length (i_generated (r_images r)) \<and>
          length (i_generated (r_images r)) < length example_pages"
    by blast
  have "\<exists>r' rs. getRecord (history ?w') (asc ''r1'') = Some r' \<and>
           map fst rs = attempted_pages example_pages \<and>
           list_all (\<lambda>pr. result_of_page (fst pr) (snd pr) \<and>
             g_success (snd pr) = (p_content (fst pr) \<in> {asc ''p0'', asc ''p1'', asc ''p2''})) rs \<and>
           r_status r' = final_status (failed_pages rs) (succeeded_files rs) \<and>
           i_generated (r_images r') = map Some (succeeded_files rs)"
    using h by (intro generateImages_final_record [OF example_page_rule]) simp_all
  then obtain r' rs where all: "getRecord (history ?w') (asc ''r1'') = Some r' \<and>
           map fst rs = attempted_pages example_pages \<and>
           list_all (\<lambda>pr. result_of_page (fst pr) (snd pr) \<and>
             g_success (snd pr) = (p_content (fst pr) \<in> {asc ''p0'', asc ''p1'', asc ''p2''})) rs \<and>
           r_status r' = final_status (failed_pages rs) (succeeded_files rs) \<and>
           i_generated (r_images r') = map Some (succeeded_files rs)"
    by (elim exE)
  from all r have same: "r' = r" by simp
  have res: "map (\<lambda>pr. (p_index (fst pr), g_success (snd pr))) rs
             = [(0, True), (1, True), (2, True), (3, False), (4, False)]"
    unfolding results_by_page [OF all [THEN conjunct2, THEN conjunct2, THEN conjunct1]]
      all [THEN conjunct2, THEN conjunct1] attempted_example_pages
    by (simp add: example_pages_def)
  have count: "length (i_generated (r_images r)) = 3"
    using all same scenario_counts(1) [OF res] by simp
  have five: "length example_pages = 5" by (simp add: example_pages_def)
  from partial count five have "r_status r = asc ''partial''" by simp
  with r count five have first: "\<exists>r. getRecord (history ?w') (asc ''r1'') = Some r \<and>
        r_status r = asc ''partial'' \<and> length (i_generated (r_images r)) = 3 \<and>
        length example_pages = 5"
    by blast
  have scan: "scanAndSyncTaskImages parseInt_digits (asc ''2024-01-03T00:00:00.000Z'')
                (asc ''task_1'') example_store
              = (ScanSynced (asc ''r1'') (asc ''task_1'')
                   [asc ''0.png'', asc ''1.png'', asc ''2.png''] (asc ''completed''),
                 snd (scanAndSyncTaskImages parseInt_digits (asc ''2024-01-03T00:00:00.000Z'')
                        (asc ''task_1'') example_store))"
    by (simp add: example_scan)
  from inst [THEN conjunct2, rule_format, OF scan] obtain q where
    q: "getRecord (snd (scanAndSyncTaskImages parseInt_digits (asc ''2024-01-03T00:00:00.000Z'')
                          (asc ''task_1'') example_store)) (asc ''r1'') = Some q"
      "r_status q = asc ''completed''"
      "i_generated (r_images q) = map Some [asc ''0.png'', asc ''1.png'', asc ''2.png'']"
    by blast
  have "pages_length (r_outline q) = 2"
    using q(1)
    by (auto simp: example_scan updateRecord_found(2) [OF example_store_record]
        update_detail_fields pages_length_def example_outline_def)
  with q have second: "\<exists>r. getRecord (snd (scanAndSyncTaskImages parseInt_digits
        (asc ''2024-01-03T00:00:00.000Z'') (asc ''task_1'') example_store)) (asc ''r1'') = Some r \<and>
        r_status r = asc ''completed'' \<and> length (i_generated (r_images r)) = 3 \<and>
        pages_length (r_outline r) = 2"
    by auto
  from first second show ?thesis by blast
qed

section \<open>The order of the events of a task\<close>

lemma announced_in_mono:
  "announced_in before e \<Longrightarrow> set before \<subseteq> set before' \<Longrightarrow> announced_in before' e"
  by (auto simp: announced_in_def list_ex_iff)

lemma causal_order_mono:
  "causal_order before evs \<Longrightarrow> set before \<subseteq> set before' \<Longrightarrow> causal_order before' evs"
proof (induction evs arbitrary: before before')
  case Nil
  then show ?case by simp
next
  case (Cons e evs)
  from Cons.prems have "set (before @ [e]) \<subseteq> set (before' @ [e])" by auto
  with Cons show ?case
    by (auto intro: announced_in_mono)
qed

lemma causal_order_append:
  "causal_order before (xs @ ys) \<longleftrightarrow> causal_order before xs \<and> causal_order (before @ xs) ys"
  by (induction xs arbitrary: before) auto

lemma causal_order_plain:
  "list_all (\<lambda>e. \<not> is_result_event e) evs \<Longrightarrow> causal_order before evs"
  by (induction evs arbitrary: before) simp_all

lemma causal_order_nth:
  "causal_order before evs \<Longrightarrow> j < length evs \<Longrightarrow> is_result_event (evs ! j) \<Longrightarrow>
   e_index (evs ! j) \<noteq> None \<and>
   (\<exists>p \<in> set before \<union> set (take j evs). e_event p = EvProgress \<and> e_index p = e_index (evs ! j))"
proof (induction evs arbitrary: before j)
  case Nil
  then show ?case by simp
next
  case (Cons e evs)
  show ?case
  proof (cases j)
    case 0
    with Cons.prems show ?thesis
      by (auto simp: announced_in_def list_ex_iff)
  next
    case (Suc k)
    with Cons.prems have "causal_order (before @ [e]) evs" "k < length evs"
      "is_result_event (evs ! k)"
      by simp_all
    from Cons.IH [OF this] Suc show ?thesis by auto
  qed
qed

lemma cover_first_nth:
  "cover_first evs \<Longrightarrow> i < length evs \<Longrightarrow> j < length evs \<Longrightarrow>
   e_phase (evs ! i) = Some (asc ''cover'') \<Longrightarrow> e_phase (evs ! j) = Some (asc ''content'')
   \<Longrightarrow> i < j"
proof (induction evs arbitrary: i j)
  case Nil
  then show ?case by simp
next
  case (Cons e evs)
  show ?case
  proof (cases j)
    case 0
    with Cons.prems have content: "e_phase e = Some (asc ''content'')" by simp
    with Cons.prems(1) have none: "list_all (\<lambda>x. e_phase x \<noteq> Some (asc ''cover'')) evs"
      by simp
    show ?thesis
    proof (cases i)
      case 0
      with content Cons.prems(4) show ?thesis by simp
    next
      case (Suc k)
      with Cons.prems have "k < length evs" "e_phase (evs ! k) = Some (asc ''cover'')"
        by simp_all
      with none show ?thesis by (simp add: list_all_length)
    qed
  next
    case (Suc l)
    show ?thesis
    proof (cases i)
      case 0
      with Suc show ?thesis by simp
    next
      case (Suc k)
      with \<open>j = Suc l\<close> Cons.prems Cons.IH [of k l] show ?thesis by simp
    qed
  qed
qed

lemma cover_first_append:
  "list_all (\<lambda>e. e_phase e \<noteq> Some (asc ''content'')) xs \<Longrightarrow>
   cover_first (xs @ ys) = cover_first ys"
  by (induction xs) simp_all

lemma cover_first_no_cover:
  "list_all (\<lambda>e. e_phase e \<noteq> Some (asc ''cover'')) evs \<Longrightarrow> cover_first evs"
  by (induction evs) simp_all

text \<open>The events of each phase.\<close>

lemma phase_names_distinct [simp]:
  "asc ''cover'' \<noteq> asc ''content''" "asc ''content'' \<noteq> asc ''cover''"
  by simp_all

lemma result_event_fields [simp]:
  "e_event (complete_event c index filename phase) = EvComplete"
  "e_index (complete_event c index filename phase) = Some index"
  "e_phase (complete_event c index filename phase) = Some phase"
  "e_event (error_event index error phase) = EvError"
  "e_index (error_event index error phase) = Some index"
  "e_phase (error_event index error phase) = Some phase"
  by (simp_all add: complete_event_def error_event_def event_of_def)

lemma progress_event_fields [simp]:
  "e_event (cover_progress c page) = EvProgress"
  "e_index (cover_progress c page) = Some (p_index page)"
  "e_phase (cover_progress c page) = Some (asc ''cover'')"
  "e_event (content_progress c page st) = EvProgress"
  "e_index (content_progress c page st) = Some (p_index page)"
  "e_phase (content_progress c page st) = Some (asc ''content'')"
  "e_event (batch_start c mode n st) = EvProgress"
  "e_index (batch_start c mode n st) = None"
  "e_phase (batch_start c mode n st) = Some (asc ''content'')"
  by (simp_all add: cover_progress_def content_progress_def batch_start_def event_of_def)

text \<open>
  A result event of the page with index \<open>i\<close> in the phase \<open>ph\<close>: a \<open>complete\<close> or an
  \<open>error\<close> event that carries \<open>i\<close>.
\<close>

lemma cover_phase_events:
  "\<exists>e. st_events (cover_phase env c coverPage st)
        = st_events st @ [cover_progress c coverPage, e] \<and>
       is_result_event e \<and> e_index e = Some (p_index coverPage) \<and>
       e_phase e = Some (asc ''cover'')"
proof -
  obtain r w1 where g: "generateSingleImage env coverPage None (c_fullOutline c)
                          (c_userImages c) (c_userTopic c) (st_world st) = (r, w1)"
    by (cases "generateSingleImage env coverPage None (c_fullOutline c)
                 (c_userImages c) (c_userTopic c) (st_world st)")
  from generateSingleImage_spec(3) [OF g] have idx: "g_index r = p_index coverPage"
    by (simp add: result_of_page_def)
  show ?thesis
  proof (cases "succeeded r")
    case None
    with g idx show ?thesis
      by (intro exI [of _ "error_event (p_index coverPage) (g_error r) (asc ''cover'')"])
         (simp add: cover_phase_def Let_def is_result_event_def)
  next
    case (Some filename)
    with g idx show ?thesis
      by (intro exI [of _ "complete_event c (g_index r) filename (asc ''cover'')"])
         (simp add: cover_phase_def Let_def is_result_event_def)
  qed
qed

lemma content_result_events:
  assumes "result_of_page page r"
  shows "\<exists>e. st_events (content_result env c page r st) = st_events st @ [e] \<and>
             is_result_event e \<and> e_index e = Some (p_index page) \<and>
             e_phase e = Some (asc ''content'')"
proof (cases "succeeded r")
  case None
  with assms show ?thesis
    by (intro exI [of _ "error_event (g_index r) (g_error r) (asc ''content'')"])
       (simp add: content_result_def Let_def is_result_event_def result_of_page_def)
next
  case (Some filename)
  with assms show ?thesis
    by (intro exI [of _ "complete_event c (g_index r) filename (asc ''content'')"])
       (auto simp: content_result_def Let_def is_result_event_def result_of_page_def
             split: if_splits)
qed

text \<open>
  A stretch of content events: all of the content phase, and in causal order after
  whatever came before, given that the pages in \<open>open\<close> have been announced already.
\<close>

lemma content_sequential_events:
  "\<exists>evs. st_events (content_sequential env c pages st) = st_events st @ evs \<and>
         list_all (\<lambda>e. e_phase e = Some (asc ''content'')) evs \<and>
         (\<forall>before. causal_order before evs)"
proof (induction pages arbitrary: st)
  case Nil
  then show ?case by simp
next
  case (Cons page rest)
  let ?st1 = "yield (content_progress c page st) st"
  obtain r w1 where gen: "generate_content_page env c (coverImageData ?st1) page (st_world ?st1)
                          = (r, w1)"
    by (cases "generate_content_page env c (coverImageData ?st1) page (st_world ?st1)")
  let ?st2 = "content_result env c page r (?st1\<lparr>st_world := w1\<rparr>)"
  have unfold: "content_sequential env c (page # rest) st = content_sequential env c rest ?st2"
    using gen by (simp add: Let_def)
  from gen have g: "generateSingleImage env page (coverImageData st) (c_fullOutline c)
                      (c_userImages c) (c_userTopic c) (st_world st) = (r, w1)"
    by (simp add: generate_content_page_def)
  from content_result_events [OF generateSingleImage_spec(3) [OF g],
      where st = "?st1\<lparr>st_world := w1\<rparr>" and env = env and c = c]
  obtain e where e: "st_events ?st2 = st_events st @ [content_progress c page st, e]"
    "is_result_event e" "e_index e = Some (p_index page)" "e_phase e = Some (asc ''content'')"
    by auto
  from Cons.IH [of ?st2] obtain evs where
    evs: "st_events (content_sequential env c rest ?st2) = st_events ?st2 @ evs"
    "list_all (\<lambda>e. e_phase e = Some (asc ''content'')) evs" "\<forall>before. causal_order before evs"
    by blast
  have step: "causal_order before [content_progress c page st, e]" for before
    using e by (simp add: is_result_event_def announced_in_def)
  have "causal_order before ([content_progress c page st, e] @ evs)" for before
    unfolding causal_order_append using step [of before] evs(3) by blast
  then show ?case
    unfolding unfold evs(1) e(1) using evs(2) e(4)
    by (intro exI [of _ "[content_progress c page st, e] @ evs"]) simp
qed

lemma yield_progress_events:
  "st_events (yield_progress c pages st)
   = st_events st @ map (\<lambda>page. content_progress c page st) pages"
proof (induction pages arbitrary: st)
  case Nil
  then show ?case by simp
next
  case (Cons page rest)
  have same: "content_progress c p (yield e st) = content_progress c p st" for p e
    by (simp add: content_progress_def)
  from Cons [of "yield (content_progress c page st) st"] show ?case
    by (simp add: same)
qed

lemma handle_results_events:
  assumes "list_all (\<lambda>pr. result_of_page (fst pr) (snd pr)) prs"
  shows "\<exists>evs. st_events (handle_results env c prs st) = st_events st @ evs \<and>
           list_all (\<lambda>e. e_phase e = Some (asc ''content'')) evs \<and>
           list_all (\<lambda>e. is_result_event e \<and> e_index e \<in> Some ` p_index ` fst ` set prs) evs"
  using assms
proof (induction prs arbitrary: st)
  case Nil
  then show ?case by simp
next
  case (Cons pr prs)
  obtain page r where pr: "pr = (page, r)" by (cases pr)
  from Cons.prems pr have rp: "result_of_page page r"
    and rest: "list_all (\<lambda>pr. result_of_page (fst pr) (snd pr)) prs"
    by simp_all
  from content_result_events [OF rp, where st = st and env = env and c = c]
  obtain e where e: "st_events (content_result env c page r st) = st_events st @ [e]"
    "is_result_event e" "e_index e = Some (p_index page)" "e_phase e = Some (asc ''content'')"
    by auto
  from Cons.IH [OF rest, of "content_result env c page r st"] obtain evs where
    evs: "st_events (handle_results env c prs (content_result env c page r st))
          = st_events (content_result env c page r st) @ evs"
    "list_all (\<lambda>e. e_phase e = Some (asc ''content'')) evs"
    "list_all (\<lambda>e. is_result_event e \<and> e_index e \<in> Some ` p_index ` fst ` set prs) evs"
    by blast
  show ?case
    using e evs
    by (intro exI [of _ "e # evs"]) (auto simp: pr list_all_iff)
qed

lemma run_all_results:
  "run_all env c cover pages w = (results, w') \<Longrightarrow>
   length results = length pages \<and>
   list_all (\<lambda>pr. result_of_page (fst pr) (snd pr)) (zip pages results)"
proof (induction pages arbitrary: w results w')
  case Nil
  then show ?case by simp
next
  case (Cons page rest)
  obtain r w1 where gen: "generate_content_page env c cover page w = (r, w1)"
    by (cases "generate_content_page env c cover page w")
  obtain rs w2 where rest: "run_all env c cover rest w1 = (rs, w2)"
    by (cases "run_all env c cover rest w1")
  from Cons.prems gen rest have res: "results = r # rs"
    by (simp add: Let_def)
  from gen have g: "generateSingleImage env page cover (c_fullOutline c)
                      (c_userImages c) (c_userTopic c) w = (r, w1)"
    by (simp add: generate_content_page_def)
  from Cons.IH [OF rest] generateSingleImage_spec(3) [OF g] show ?case
    by (simp add: res)
qed

lemma causal_order_announced:
  assumes "list_all (\<lambda>e. is_result_event e \<and> e_index e \<in> Some ` p_index ` set pages) evs"
    and "\<forall>page \<in> set pages. \<exists>p \<in> set before. e_event p = EvProgress \<and> e_index p = Some (p_index page)"
  shows "causal_order before evs"
  using assms
proof (induction evs arbitrary: before)
  case Nil
  then show ?case by simp
next
  case (Cons e evs)
  from Cons.prems(1) obtain page where page: "page \<in> set pages" "e_index e = Some (p_index page)"
    by auto
  with Cons.prems(2) have "announced_in before e"
    by (auto simp: announced_in_def list_ex_iff)
  moreover have "causal_order (before @ [e]) evs"
    using Cons.prems by (intro Cons.IH) auto
  ultimately show ?case by simp
qed

lemma content_concurrent_events:
  "\<exists>evs. st_events (content_concurrent env c pages st) = st_events st @ evs \<and>
         list_all (\<lambda>e. e_phase e = Some (asc ''content'')) evs \<and>
         (\<forall>before. causal_order before evs)"
proof -
  let ?st1 = "yield_progress c pages st"
  obtain results w1 where run: "run_all env c (coverImageData ?st1) pages (st_world ?st1)
                                = (results, w1)"
    by (cases "run_all env c (coverImageData ?st1) pages (st_world ?st1)")
  let ?st2 = "handle_results env c (zip pages results) (?st1\<lparr>st_world := w1\<rparr>)"
  have unfold: "content_concurrent env c pages st = ?st2"
    using run by (simp add: content_concurrent_def Let_def)
  have ok: "list_all (\<lambda>pr. result_of_page (fst pr) (snd pr)) (zip pages results)"
    and len: "length results = length pages"
    using run_all_results [OF run] by simp_all
  let ?progress = "map (\<lambda>page. content_progress c page st) pages"
  from handle_results_events [OF ok, where st = "?st1\<lparr>st_world := w1\<rparr>" and env = env and c = c]
  obtain evs where evs: "st_events ?st2 = st_events st @ ?progress @ evs"
    "list_all (\<lambda>e. e_phase e = Some (asc ''content'')) evs"
    "list_all (\<lambda>e. is_result_event e \<and>
       e_index e \<in> Some ` p_index ` fst ` set (zip pages results)) evs"
    by (auto simp: yield_progress_events)
  have pages: "fst ` set (zip pages results) = set pages"
    using len by (metis map_fst_zip set_map)
  have c1: "causal_order before ?progress" for before
    by (rule causal_order_plain) (simp add: list_all_iff is_result_event_def)
  have ann: "\<forall>page \<in> set pages. \<exists>p \<in> set (before @ ?progress).
               e_event p = EvProgress \<and> e_index p = Some (p_index page)" for before
  proof
    fix page assume "page \<in> set pages"
    then have "content_progress c page st \<in> set (before @ ?progress)" by simp
    then show "\<exists>p \<in> set (before @ ?progress).
                 e_event p = EvProgress \<and> e_index p = Some (p_index page)"
      by (intro bexI [of _ "content_progress c page st"]) simp_all
  qed
  have res: "list_all (\<lambda>e. is_result_event e \<and> e_index e \<in> Some ` p_index ` set pages) evs"
    using evs(3) pages by (simp add: image_image)
  have c2: "causal_order (before @ ?progress) evs" for before
    by (rule causal_order_announced [OF res ann])
  have "causal_order before (?progress @ evs)" for before
    unfolding causal_order_append using c1 [of before] c2 [of before] by blast
  then show ?thesis
    unfolding unfold evs(1) using evs(2)
    by (intro exI [of _ "?progress @ evs"]) (auto simp: list_all_iff)
qed

lemma content_phase_events:
  "\<exists>evs. st_events (content_phase env c otherPages st) = st_events st @ evs \<and>
         list_all (\<lambda>e. e_phase e = Some (asc ''content'')) evs \<and>
         (\<forall>before. causal_order before evs)"
proof (cases "otherPages = []")
  case True
  then show ?thesis by (simp add: content_phase_def)
next
  case False
  let ?mode = "if high_concurrency env then [24182, 21457] else [39034, 24207]"
  let ?b = "batch_start c ?mode (length otherPages) st"
  let ?st1 = "yield ?b st"
  have "\<exists>evs. st_events (content_phase env c otherPages st) = st_events ?st1 @ evs \<and>
         list_all (\<lambda>e. e_phase e = Some (asc ''content'')) evs \<and>
         (\<forall>before. causal_order before evs)"
    using False content_concurrent_events [of env c otherPages ?st1]
      content_sequential_events [of env c otherPages ?st1]
    by (cases "high_concurrency env") (simp_all add: content_phase_def)
  then obtain evs where evs: "st_events (content_phase env c otherPages st)
      = st_events ?st1 @ evs"
    "list_all (\<lambda>e. e_phase e = Some (asc ''content'')) evs" "\<forall>before. causal_order before evs"
    by blast
  have nb: "\<not> is_result_event ?b"
    by (simp add: is_result_event_def)
  have "causal_order before ([?b] @ evs)" for before
    unfolding causal_order_append using evs(3) nb by simp
  then show ?thesis
    using evs(1,2) by (intro exI [of _ "[?b] @ evs"]) (simp del: causal_order.simps)
qed

lemma partition_pages_cover: "pages \<noteq> [] \<Longrightarrow> fst (partition_pages pages) \<noteq> None"
  by (cases pages) (auto simp: partition_pages_def split: prod.splits option.splits)

text \<open>The whole sequence: the cover's two events, the content events, the finish event.\<close>

lemma generateImages_events:
  "\<exists>cover content fin.
     fst (generateImages env pages taskId fullOutline userImages userTopic recordId w)
       = cover @ content @ [fin] \<and>
     (cover = [] \<and> pages = [] \<or>
      (\<exists>p e. cover = [p, e] \<and> e_event p = EvProgress \<and> e_phase p = Some (asc ''cover'') \<and>
             is_result_event e \<and> e_index e = e_index p \<and> e_index p \<noteq> None \<and>
             e_phase e = Some (asc ''cover''))) \<and>
     list_all (\<lambda>e. e_phase e = Some (asc ''content'')) content \<and>
     (\<forall>before. causal_order before content) \<and>
     e_event fin = EvFinish \<and> e_phase fin = None"
proof -
  obtain c w0 where start:
    "start_task env pages taskId fullOutline userImages userTopic recordId w = (c, w0)"
    by (cases "start_task env pages taskId fullOutline userImages userTopic recordId w")
  obtain coverPage otherPages where part: "partition_pages pages = (coverPage, otherPages)"
    by (cases "partition_pages pages")
  let ?st0 = "\<lparr>st_events = [], generatedImages = [], failedPages = [],
               coverImageData = None, st_world = w0\<rparr>"
  let ?st1 = "case coverPage of None \<Rightarrow> ?st0 | Some page \<Rightarrow> cover_phase env c page ?st0"
  let ?st2 = "content_phase env c otherPages ?st1"
  have run: "fst (generateImages env pages taskId fullOutline userImages userTopic recordId w)
             = st_events ?st2 @ [finish_event c ?st2]"
    by (simp add: generateImages_def start part Let_def)
  obtain content where content: "st_events ?st2 = st_events ?st1 @ content"
    "list_all (\<lambda>e. e_phase e = Some (asc ''content'')) content"
    "\<forall>before. causal_order before content"
    using content_phase_events [of env c otherPages ?st1] by blast
  have cover: "st_events ?st1 = [] \<and> pages = [] \<or>
      (\<exists>p e. st_events ?st1 = [p, e] \<and> e_event p = EvProgress \<and>
             e_phase p = Some (asc ''cover'') \<and>
             is_result_event e \<and> e_index e = e_index p \<and> e_index p \<noteq> None \<and>
             e_phase e = Some (asc ''cover''))"
  proof (cases coverPage)
    case None
    with partition_pages_cover [of pages] part show ?thesis by auto
  next
    case (Some page)
    from cover_phase_events [of env c page ?st0] obtain e where
      "st_events (cover_phase env c page ?st0) = [cover_progress c page, e]"
      "is_result_event e" "e_index e = Some (p_index page)" "e_phase e = Some (asc ''cover'')"
      by auto
    with Some show ?thesis
      by (intro disjI2 exI [of _ "cover_progress c page"] exI [of _ e]) simp
  qed
  show ?thesis
    using run content cover
    by (intro exI [of _ "st_events ?st1"] exI [of _ content]
        exI [of _ "finish_event c ?st2"]) simp
qed

text \<open>
  C4: in the events of a task, in either concurrency mode, no event of the cover phase
  comes after an event of the content phase, and every \<open>complete\<close> or \<open>error\<close> event comes
  after a \<open>progress\<close> event that carries the same page index. When there are pages, the
  first two events are the cover's: its \<open>progress\<close> event and then its \<open>complete\<close> or
  \<open>error\<close> event, whichever way the generation of the cover went.
\<close>

theorem cover_before_content_and_causal:
  "let evs = fst (generateImages env pages taskId fullOutline userImages userTopic recordId w)
   in (\<forall>i j. i < length evs \<and> j < length evs \<and>
             e_phase (evs ! i) = Some (asc ''cover'') \<and>
             e_phase (evs ! j) = Some (asc ''content'') \<longrightarrow> i < j) \<and>
      (\<forall>j. j < length evs \<and> (e_event (evs ! j) = EvComplete \<or> e_event (evs ! j) = EvError)
           \<longrightarrow> e_index (evs ! j) \<noteq> None \<and>
               (\<exists>i<j. e_event (evs ! i) = EvProgress \<and> e_index (evs ! i) = e_index (evs ! j))) \<and>
      (pages \<noteq> [] \<longrightarrow>
         2 \<le> length evs \<and> e_event (evs ! 0) = EvProgress \<and>
         e_phase (evs ! 0) = Some (asc ''cover'') \<and>
         (e_event (evs ! 1) = EvComplete \<or> e_event (evs ! 1) = EvError) \<and>
         e_phase (evs ! 1) = Some (asc ''cover'') \<and> e_index (evs ! 1) = e_index (evs ! 0))"
proof -
  let ?evs = "fst (generateImages env pages taskId fullOutline userImages userTopic recordId w)"
  obtain cover content fin where evs: "?evs = cover @ content @ [fin]"
    and cover: "cover = [] \<and> pages = [] \<or>
      (\<exists>p e. cover = [p, e] \<and> e_event p = EvProgress \<and> e_phase p = Some (asc ''cover'') \<and>
             is_result_event e \<and> e_index e = e_index p \<and> e_index p \<noteq> None \<and>
             e_phase e = Some (asc ''cover''))"
    and content: "list_all (\<lambda>e. e_phase e = Some (asc ''content'')) content"
      "\<forall>before. causal_order before content"
    and fin: "e_event fin = EvFinish" "e_phase fin = None"
    using generateImages_events [of env pages taskId fullOutline userImages userTopic recordId w]
    by blast
  have no_content: "list_all (\<lambda>e. e_phase e \<noteq> Some (asc ''content'')) cover"
    using cover by auto
  have no_cover: "list_all (\<lambda>e. e_phase e \<noteq> Some (asc ''cover'')) (content @ [fin])"
    using content(1) fin by (auto simp: list_all_iff)
  have first: "cover_first ?evs"
    unfolding evs using cover_first_append [OF no_content] cover_first_no_cover [OF no_cover]
    by simp
  have c_cover: "causal_order [] cover"
  proof (cases "cover = []")
    case True
    then show ?thesis by simp
  next
    case False
    with cover obtain p e where "cover = [p, e]" "e_event p = EvProgress"
      "e_index e = e_index p" "e_index p \<noteq> None"
      by blast
    then show ?thesis
      by (simp add: announced_in_def is_result_event_def)
  qed
  have c_fin: "causal_order before [fin]" for before
    using fin by (simp add: is_result_event_def)
  have causal: "causal_order [] ?evs"
    unfolding evs causal_order_append using c_cover content(2) c_fin by simp
  have a: "i < j" if "i < length ?evs" "j < length ?evs"
      "e_phase (?evs ! i) = Some (asc ''cover'')" "e_phase (?evs ! j) = Some (asc ''content'')"
    for i j
    using cover_first_nth [OF first that] .
  have b: "e_index (?evs ! j) \<noteq> None \<and>
           (\<exists>i<j. e_event (?evs ! i) = EvProgress \<and> e_index (?evs ! i) = e_index (?evs ! j))"
    if j: "j < length ?evs" and res: "e_event (?evs ! j) = EvComplete \<or> e_event (?evs ! j) = EvError"
    for j
  proof -
    from res have "is_result_event (?evs ! j)" by (simp add: is_result_event_def)
    from causal_order_nth [OF causal j this] obtain p where
      idx: "e_index (?evs ! j) \<noteq> None" and p: "p \<in> set (take j ?evs)"
      "e_event p = EvProgress" "e_index p = e_index (?evs ! j)"
      by auto
    from p(1) obtain i where "i < length (take j ?evs)" "take j ?evs ! i = p"
      by (auto simp: in_set_conv_nth)
    then have "i < j" "?evs ! i = p" by simp_all
    with p idx show ?thesis by blast
  qed
  have c: "2 \<le> length ?evs \<and> e_event (?evs ! 0) = EvProgress \<and>
         e_phase (?evs ! 0) = Some (asc ''cover'') \<and>
         (e_event (?evs ! 1) = EvComplete \<or> e_event (?evs ! 1) = EvError) \<and>
         e_phase (?evs ! 1) = Some (asc ''cover'') \<and> e_index (?evs ! 1) = e_index (?evs ! 0)"
    if "pages \<noteq> []"
  proof -
    from cover that obtain p e where "cover = [p, e]" "e_event p = EvProgress"
      "e_phase p = Some (asc ''cover'')" "is_result_event e" "e_index e = e_index p"
      "e_phase e = Some (asc ''cover'')"
      by blast
    then show ?thesis
      unfolding evs by (simp add: is_result_event_def)
  qed
  show ?thesis
    unfolding Let_def using a b c by blast
qed

theorem cover_before_content_and_causal_witness:
  "e_event (fst (generateImages (example_env True (asc ''image_api'')) example_pages
      (Some (asc ''task_1'')) [] None [] None example_world) ! 0) = EvProgress \<and>
   e_phase (fst (generateImages (example_env True (asc ''image_api'')) example_pages
      (Some (asc ''task_1'')) [] None [] None example_world) ! 0) = Some (asc ''cover'') \<and>
   (e_event (fst (generateImages (example_env True (asc ''image_api'')) example_pages
      (Some (asc ''task_1'')) [] None [] None example_world) ! 1) = EvComplete \<or>
    e_event (fst (generateImages (example_env True (asc ''image_api'')) example_pages
      (Some (asc ''task_1'')) [] None [] None example_world) ! 1) = EvError) \<and>
   e_index (fst (generateImages (example_env True (asc ''image_api'')) example_pages
      (Some (asc ''task_1'')) [] None [] None example_world) ! 1) \<noteq> None \<and>
   (\<exists>i<1. e_event (fst (generateImages (example_env True (asc ''image_api'')) example_pages
             (Some (asc ''task_1'')) [] None [] None example_world) ! i) = EvProgress \<and>
          e_index (fst (generateImages (example_env True (asc ''image_api'')) example_pages
             (Some (asc ''task_1'')) [] None [] None example_world) ! i)
          = e_index (fst (generateImages (example_env True (asc ''image_api'')) example_pages
             (Some (asc ''task_1'')) [] None [] None example_world) ! 1))"
proof -
  let ?evs = "fst (generateImages (example_env True (asc ''image_api'')) example_pages
      (Some (asc ''task_1'')) [] None [] None example_world)"
  have ne: "example_pages \<noteq> []" by (simp add: example_pages_def)
  note inst = cover_before_content_and_causal [where env = "example_env True (asc ''image_api'')"
      and pages = example_pages and taskId = "Some (asc ''task_1'')" and fullOutline = "[]"
      and userImages = None and userTopic = "[]" and recordId = None and w = example_world,
      unfolded Let_def]
  from inst ne have first: "2 \<le> length ?evs" "e_event (?evs ! 0) = EvProgress"
    "e_phase (?evs ! 0) = Some (asc ''cover'')"
    "e_event (?evs ! 1) = EvComplete \<or> e_event (?evs ! 1) = EvError"
    by blast+
  then have "1 < length ?evs \<and> (e_event (?evs ! 1) = EvComplete \<or> e_event (?evs ! 1) = EvError)"
    by simp
  with inst have "e_index (?evs ! 1) \<noteq> None \<and>
      (\<exists>i<1. e_event (?evs ! i) = EvProgress \<and> e_index (?evs ! i) = e_index (?evs ! 1))"
    by blast
  with first show ?thesis by blast
qed


section \<open>The reference image of a retry\<close>

lemma request_references_kwargs:
  "request_references (generator_kwargs env prompt referenceImage userImages) =
     (if provider_type env = Some (asc ''google_genai'')
      then (case referenceImage of None \<Rightarrow> [] | Some img \<Rightarrow> [img])
      else if provider_type env = Some (asc ''image_api'')
      then (case userImages of None \<Rightarrow> [] | Some imgs \<Rightarrow> imgs) @
           (case referenceImage of None \<Rightarrow> [] | Some img \<Rightarrow> [img])
      else [])"
  by (simp add: request_references_def generator_kwargs_def Let_def split: option.splits)

lemma enter_task_dir_fields [simp]:
  "taskStates (enter_task_dir taskId w) = taskStates w"
  "generator_calls (enter_task_dir taskId w) = generator_calls w"
  "page_results (enter_task_dir taskId w) = page_results w"
  "currentTaskDir (enter_task_dir taskId w) = Some taskId"
  by (simp_all add: enter_task_dir_def)

lemma read_file_ensure_dir:
  "read_file (ensure_dir taskId s) taskId name = read_file s taskId name"
  by (simp add: read_file_def ensure_dir_def split: option.splits)

lemma cover_from_disk_enter:
  "cover_from_disk env (enter_task_dir taskId w)
   = (case read_file (history w) taskId (asc ''0.png'') of
        None \<Rightarrow> None
      | Some coverData \<Rightarrow> Some (compressImage env coverData 200))"
  by (simp add: cover_from_disk_def enter_task_dir_def read_file_ensure_dir)

lemma retry_reference_expected:
  "retry_reference env taskId True (enter_task_dir taskId w) = expected_reference env taskId w"
  by (simp add: retry_reference_def expected_reference_def cover_from_disk_enter Let_def
      split: option.splits)

lemma failed_reference_expected:
  "failed_reference env taskId (enter_task_dir taskId w) = expected_reference env taskId w"
  by (simp add: failed_reference_def expected_reference_def cover_from_disk_enter
      split: option.splits)

lemma retry_request_references:
  "request_references
     (generator_kwargs env prompt (expected_reference env taskId w)
        (retry_userImages taskId (enter_task_dir taskId w)))
   = passed_references env taskId w"
  by (simp add: request_references_kwargs passed_references_def retry_userImages_def Let_def
      split: option.splits)

lemma new_calls_quiet: "quiet w1 w2 \<Longrightarrow> new_calls w w2 = new_calls w w1"
  by (simp add: new_calls_def quiet_def)

lemma mark_quiet:
  "quiet w (mark_generated taskId index filename w)"
  "quiet w (mark_failed taskId index error w)"
  by (simp_all add: mark_generated_def mark_failed_def update_task_state_quiet)

lemma retry_record_update_quiet: "quiet w (retry_record_update env taskId recordId filename w)"
  by (simp add: retry_record_update_def Let_def updateHistoryRecord_quiet split: option.splits)

text \<open>The calls one page adds: between one and three, all with the same reference images.\<close>

lemma generateSingleImage_calls:
  assumes "generateSingleImage env page referenceImage fullOutline userImages userTopic w
           = (r, w')"
  shows "\<exists>reqs. generator_calls w' = generator_calls w @ reqs \<and> reqs \<noteq> [] \<and>
           list_all (\<lambda>req. request_references req
              = request_references (generator_kwargs env [] referenceImage userImages)) reqs"
proof -
  from generateSingleImage_spec(8) [OF assms] obtain k prompt where
    k: "0 < k" "generator_calls w' = generator_calls w @
             replicate k (generator_kwargs env prompt referenceImage userImages)"
    by blast
  have "request_references (generator_kwargs env prompt referenceImage userImages)
        = request_references (generator_kwargs env [] referenceImage userImages)"
    by (simp add: request_references_kwargs)
  with k show ?thesis
    by (intro exI [of _ "replicate k (generator_kwargs env prompt referenceImage userImages)"])
       (simp add: list_all_iff)
qed

lemma retrySingleImage_calls:
  "new_calls w (snd (retrySingleImage env taskId page True fullOutline userTopic w)) \<noteq> [] \<and>
   list_all (\<lambda>req. request_references req = passed_references env taskId w)
     (new_calls w (snd (retrySingleImage env taskId page True fullOutline userTopic w)))"
proof -
  let ?w1 = "enter_task_dir taskId w"
  obtain r w2 where g: "generateSingleImage env page (expected_reference env taskId w)
      (retry_fullOutline taskId fullOutline ?w1) (retry_userImages taskId ?w1)
      (retry_userTopic taskId userTopic ?w1) ?w1 = (r, w2)"
    by (cases "generateSingleImage env page (expected_reference env taskId w)
      (retry_fullOutline taskId fullOutline ?w1) (retry_userImages taskId ?w1)
      (retry_userTopic taskId userTopic ?w1) ?w1")
  from generateSingleImage_calls [OF g] obtain reqs where
    reqs: "generator_calls w2 = generator_calls w @ reqs" "reqs \<noteq> []"
    "list_all (\<lambda>req. request_references req = passed_references env taskId w) reqs"
    by (auto simp: retry_request_references)
  have "quiet w2 (snd (retrySingleImage env taskId page True fullOutline userTopic w))"
    using g by (simp add: retrySingleImage_def Let_def retry_reference_expected mark_quiet
        split: option.splits)
  from new_calls_quiet [OF this, of w]
  have "new_calls w (snd (retrySingleImage env taskId page True fullOutline userTopic w))
             = reqs"
    using reqs(1) by (simp add: new_calls_def)
  with reqs show ?thesis by simp
qed

lemma retrySingleImageStreaming_calls:
  "new_calls w (snd (retrySingleImageStreaming env taskId page True fullOutline userTopic
                       recordId w)) \<noteq> [] \<and>
   list_all (\<lambda>req. request_references req = passed_references env taskId w)
     (new_calls w (snd (retrySingleImageStreaming env taskId page True fullOutline userTopic
                          recordId w)))"
proof -
  let ?w1 = "enter_task_dir taskId w"
  let ?w' = "snd (retrySingleImageStreaming env taskId page True fullOutline userTopic
                    recordId w)"
  obtain r w2 where g: "generateSingleImage env page (expected_reference env taskId w)
      (retry_fullOutline taskId fullOutline ?w1) (retry_userImages taskId ?w1)
      (retry_userTopic taskId userTopic ?w1) ?w1 = (r, w2)"
    by (cases "generateSingleImage env page (expected_reference env taskId w)
      (retry_fullOutline taskId fullOutline ?w1) (retry_userImages taskId ?w1)
      (retry_userTopic taskId userTopic ?w1) ?w1")
  from generateSingleImage_calls [OF g] obtain reqs where
    reqs: "generator_calls w2 = generator_calls w @ reqs" "reqs \<noteq> []"
    "list_all (\<lambda>req. request_references req = passed_references env taskId w) reqs"
    by (auto simp: retry_request_references)
  have "quiet w2 ?w'"
    using g quiet_trans [OF mark_quiet(1) retry_record_update_quiet]
    by (simp add: retrySingleImageStreaming_def Let_def retry_reference_expected mark_quiet
        split: option.splits)
  from new_calls_quiet [OF this, of w]
  have "new_calls w ?w' = reqs"
    using reqs(1) by (simp add: new_calls_def)
  with reqs show ?thesis by simp
qed

lemma retry_loop_calls:
  "\<exists>reqs. generator_calls (rs_world (retry_loop env taskId n referenceImage fullOutline
             userImages userTopic pages st)) = generator_calls (rs_world st) @ reqs \<and>
          length pages \<le> length reqs \<and>
          list_all (\<lambda>req. request_references req
             = request_references (generator_kwargs env [] referenceImage userImages)) reqs"
proof (induction pages arbitrary: st)
  case Nil
  then show ?case by simp
next
  case (Cons page rest)
  obtain r w1 where g: "generateSingleImage env page referenceImage fullOutline userImages
      userTopic (rs_world st) = (r, w1)"
    by (cases "generateSingleImage env page referenceImage fullOutline userImages
      userTopic (rs_world st)")
  from generateSingleImage_calls [OF g] obtain reqs where
    reqs: "generator_calls w1 = generator_calls (rs_world st) @ reqs" "reqs \<noteq> []"
    "list_all (\<lambda>req. request_references req
       = request_references (generator_kwargs env [] referenceImage userImages)) reqs"
    by blast
  obtain st1 where st1: "retry_loop env taskId n referenceImage fullOutline userImages
      userTopic (page # rest) st
      = retry_loop env taskId n referenceImage fullOutline userImages userTopic rest st1"
    and q: "quiet w1 (rs_world st1)"
    using g by (cases "succeeded r") (simp_all add: Let_def mark_quiet)
  from Cons.IH [of st1] obtain reqs' where
    reqs': "generator_calls (rs_world (retry_loop env taskId n referenceImage fullOutline
             userImages userTopic rest st1)) = generator_calls (rs_world st1) @ reqs'"
    "length rest \<le> length reqs'"
    "list_all (\<lambda>req. request_references req
       = request_references (generator_kwargs env [] referenceImage userImages)) reqs'"
    by blast
  have "length (page # rest) \<le> length (reqs @ reqs')"
    using reqs(2) reqs'(2) by (cases reqs) simp_all
  moreover have "generator_calls (rs_world (retry_loop env taskId n referenceImage fullOutline
      userImages userTopic rest st1)) = generator_calls (rs_world st) @ reqs @ reqs'"
    using reqs(1) reqs'(1) q by (simp add: quiet_def)
  moreover have "list_all (\<lambda>req. request_references req
       = request_references (generator_kwargs env [] referenceImage userImages)) (reqs @ reqs')"
    using reqs(3) reqs'(3) by simp
  ultimately show ?case
    unfolding st1 by blast
qed

lemma retryFailedImages_calls:
  "length pages \<le> length (new_calls w (snd (retryFailedImages env taskId pages w))) \<and>
   list_all (\<lambda>req. request_references req = passed_references env taskId w)
     (new_calls w (snd (retryFailedImages env taskId pages w)))"
proof -
  let ?w1 = "enter_task_dir taskId w"
  let ?init = "\<lparr>rs_events = [], successCount = 0, failedCount = 0, rs_world = ?w1\<rparr>"
  let ?fo = "case taskStates ?w1 taskId of
               None \<Rightarrow> [] | Some ts \<Rightarrow> or_else (Some (ts_full_outline ts)) []"
  let ?ut = "case taskStates ?w1 taskId of
               None \<Rightarrow> [] | Some ts \<Rightarrow> or_else (Some (ts_user_topic ts)) []"
  let ?st = "retry_loop env taskId (length pages) (expected_reference env taskId w) ?fo
               (retry_userImages taskId ?w1) ?ut pages ?init"
  have w': "snd (retryFailedImages env taskId pages w) = rs_world ?st"
    by (simp add: retryFailedImages_def Let_def failed_reference_expected)
  from retry_loop_calls [where env = env and taskId = taskId and n = "length pages"
      and referenceImage = "expected_reference env taskId w" and fullOutline = ?fo
      and userImages = "retry_userImages taskId ?w1" and userTopic = ?ut and pages = pages
      and st = ?init]
  obtain reqs where reqs: "generator_calls (rs_world ?st) = generator_calls w @ reqs"
    "length pages \<le> length reqs"
    "list_all (\<lambda>req. request_references req = passed_references env taskId w) reqs"
    by (auto simp: retry_request_references)
  have "new_calls w (rs_world ?st) = reqs"
    using reqs(1) by (simp add: new_calls_def)
  with reqs(2,3) show ?thesis unfolding w' by simp
qed

text \<open>
  C6, as stated: with an OpenAI-compatible provider and a cover cached in the task state,
  retrying page 1 with the reference enabled makes one call of the generator, and the
  request carries no reference image, although the cached cover is there to pass.
\<close>

theorem retry_reference_counterexample:
  "expected_reference (example_env False (asc ''openai_compatible'')) (asc ''task_1'')
     example_retry_world = Some [1, 2, 3] \<and>
   new_calls example_retry_world
     (snd (retrySingleImage (example_env False (asc ''openai_compatible'')) (asc ''task_1'')
        \<lparr>p_index = 1, p_type = Content, p_content = asc ''p1''\<rparr> True None None
        example_retry_world))
   = [OpenAIRequest (asc ''p1'')] \<and>
   request_references (OpenAIRequest (asc ''p1'')) = []"
proof (intro conjI)
  show "expected_reference (example_env False (asc ''openai_compatible'')) (asc ''task_1'')
     example_retry_world = Some [1, 2, 3]"
    by (simp add: expected_reference_def example_retry_world_def)
  show "new_calls example_retry_world
     (snd (retrySingleImage (example_env False (asc ''openai_compatible'')) (asc ''task_1'')
        \<lparr>p_index = 1, p_type = Content, p_content = asc ''p1''\<rparr> True None None
        example_retry_world))
   = [OpenAIRequest (asc ''p1'')]"
    by (simp add: new_calls_def retrySingleImage_def enter_task_dir_def retry_reference_def
      generateSingleImage_def generator_kwargs_def example_env_def example_retry_world_def
      example_world_def example_store_def createRecord_def ensure_dir_def saveImage_def
      retry_fullOutline_def retry_userImages_def retry_userTopic_def Let_def
      example_prompt_ok_def AUTO_RETRY_COUNT_def upt_rec [of 0] succeeded_def
      mark_generated_def update_task_state_def page_filename_def or_else_def
      example_dir_def saveIndex_def loadIndex_def empty_store_def
      split: option.splits)
  show "request_references (OpenAIRequest (asc ''p1'')) = []"
    by (simp add: request_references_def)
qed

text \<open>
  C6, amended: in every retry with the reference enabled (\<open>retrySingleImage\<close>,
  \<open>retrySingleImageStreaming\<close>, \<open>retryFailedImages\<close>) the reference is the cover cached in the
  task state, else the compressed contents of \<open>0.png\<close> in the task directory, else none,
  and every call of the generator the retry makes carries it according to the provider
  type: alone for \<open>google_genai\<close>, after the user's images of the task state for
  \<open>image_api\<close>, and not at all for any other type. The single-page retries call the
  generator at least once, the batch retry at least once per page.
\<close>

theorem retry_reference_by_provider:
  "new_calls w (snd (retrySingleImage env taskId page True fullOutline userTopic w)) \<noteq> [] \<and>
   list_all (\<lambda>req. request_references req = passed_references env taskId w)
     (new_calls w (snd (retrySingleImage env taskId page True fullOutline userTopic w))) \<and>
   new_calls w (snd (retrySingleImageStreaming env taskId page True fullOutline userTopic
                       recordId w)) \<noteq> [] \<and>
   list_all (\<lambda>req. request_references req = passed_references env taskId w)
     (new_calls w (snd (retrySingleImageStreaming env taskId page True fullOutline userTopic
                          recordId w))) \<and>
   length pages \<le> length (new_calls w (snd (retryFailedImages env taskId pages w))) \<and>
   list_all (\<lambda>req. request_references req = passed_references env taskId w)
     (new_calls w (snd (retryFailedImages env taskId pages w)))"
  using retrySingleImage_calls [of w env taskId page fullOutline userTopic]
    retrySingleImageStreaming_calls [of w env taskId page fullOutline userTopic recordId]
    retryFailedImages_calls [of pages w env taskId]
  by blast

text \<open>
  Two instances: with \<open>google_genai\<close> and a cached cover the requests of a batch retry of
  pages 1 and 2 carry the cached bytes; with \<open>image_api\<close> and no task state they carry the
  contents of \<open>0.png\<close> read from the task directory.
\<close>

theorem retry_reference_by_provider_witness:
  "passed_references (example_env False (asc ''google_genai'')) (asc ''task_1'')
     example_retry_world = [[1, 2, 3]] \<and>
   2 \<le> length (new_calls example_retry_world
     (snd (retryFailedImages (example_env False (asc ''google_genai'')) (asc ''task_1'')
        [example_pages ! 1, example_pages ! 2] example_retry_world))) \<and>
   list_all (\<lambda>req. request_references req = [[1, 2, 3]])
     (new_calls example_retry_world
        (snd (retryFailedImages (example_env False (asc ''google_genai'')) (asc ''task_1'')
           [example_pages ! 1, example_pages ! 2] example_retry_world))) \<and>
   passed_references (example_env False (asc ''image_api'')) (asc ''task_1'')
     example_world = [[1]] \<and>
   list_all (\<lambda>req. request_references req = [[1]])
     (new_calls example_world
        (snd (retrySingleImage (example_env False (asc ''image_api'')) (asc ''task_1'')
           (example_pages ! 1) True None None example_world)))"
proof -
  have a: "passed_references (example_env False (asc ''google_genai'')) (asc ''task_1'')
     example_retry_world = [[1, 2, 3]]"
    by (simp add: passed_references_def expected_reference_def example_retry_world_def
        example_env_def Let_def)
  have b: "passed_references (example_env False (asc ''image_api'')) (asc ''task_1'')
     example_world = [[1]]"
    by (simp add: passed_references_def expected_reference_def example_world_def
        example_env_def Let_def read_file_def example_store_def createRecord_def
        saveIndex_def loadIndex_def empty_store_def example_dir_def)
  show ?thesis
    using retry_reference_by_provider [of example_retry_world
        "example_env False (asc ''google_genai'')" "asc ''task_1''" "example_pages ! 1"
        None None None "[example_pages ! 1, example_pages ! 2]"]
      retry_reference_by_provider [of example_world
        "example_env False (asc ''image_api'')" "asc ''task_1''" "example_pages ! 1"
        None None None "[]"]
    unfolding a b by simp
qed


end
